theory Spec2Isabelle
  imports Complex_Main
begin

section \<open>Data model\<close>

text \<open>
  The program stores a cloud as an \<open>N \<times> 3\<close> matrix of 32-bit floats and a plane as a
  \<open>cv::Vec4f\<close> \<open>(a, b, c, d)\<close> standing for \<open>a x + b y + c z + d = 0\<close>.  A coordinate, a
  component of a normal or of a plane is the real value of a finite float.  The two
  tests whose verdict hangs on a cancellation, the collinearity test of the estimator
  and \<open>check_same_normal\<close>, are computed in the binary formats of the source, with
  the rounding and the overflow of every operation; in the scoring of inliers, in the
  centroid, the scatter matrix and the offset of a fitted plane, and in the iteration
  cap the arithmetic is the exact one.  The one not-a-number these can produce from
  finite data, the offset \<open>d\<close> of a plane fitted to an empty sample (a \<open>0 / 0\<close> mean), is
  kept as \<open>None\<close>.
\<close>

type_synonym point = "real \<times> real \<times> real"
type_synonym cloud = "point list"
type_synonym plane = "real \<times> real \<times> real \<times> real option"
type_synonym vec3f = "real \<times> real \<times> real"

section \<open>Floating-point arithmetic\<close>

text \<open>
  The values of an IEEE 754 binary format: the finite numbers, the two infinities and
  not-a-number.  A format is given by the number of bits of its significand and by its
  largest exponent; \<open>float\<close> is \<open>binary32\<close> and \<open>double\<close> is \<open>binary64\<close>.  The sign of a
  zero is not kept: the expressions modelled with these operations add, subtract,
  multiply and compare, and none of them can tell the two zeros apart.
\<close>

datatype fp = Val real | Pos_inf | Neg_inf | Not_a_number

type_synonym format = "nat \<times> int"

definition binary32 :: format where
  "binary32 = (24, 127)"

definition binary64 :: format where
  "binary64 = (53, 1023)"

text \<open>Rounding to the nearest integer, a tie going to the even one.\<close>

definition round_half_even :: "real \<Rightarrow> int" where
  "round_half_even x =
     (let f = \<lfloor>x\<rfloor>; r = x - of_int f
      in if r < 1/2 then f else if 1/2 < r then f + 1 else if even f then f else f + 1)"

text \<open>
  The value a real result is rounded to (round to nearest, ties to even): with \<open>e\<close>
  the exponent of \<open>x\<close>, not below the least exponent \<open>1 - emax\<close> (where the subnormal
  numbers lie), \<open>x\<close> is rounded to a multiple of \<open>2\<^bsup>e - p + 1\<^esup>\<close>, and a rounded
  magnitude of \<open>2\<^bsup>emax + 1\<^esup>\<close> or more overflows to an infinity.
\<close>

definition rnd :: "format \<Rightarrow> real \<Rightarrow> fp" where
  "rnd fmt x =
     (case fmt of (p, emax) \<Rightarrow>
        if x = 0 then Val 0
        else
          let e = max \<lfloor>log 2 \<bar>x\<bar>\<rfloor> (1 - emax);
              q = 2 powi (e - int p + 1);
              r = of_int (round_half_even (x / q)) * q
          in if 2 powi (emax + 1) \<le> \<bar>r\<bar> then (if 0 < x then Pos_inf else Neg_inf) else Val r)"

text \<open>
  Negation, \<open>fabs\<close>, \<open>+\<close>, \<open>-\<close>, \<open>*\<close>, \<open><\<close> and \<open><=\<close>.  A finite result is rounded to
  the format of the operation; the source is taken to round every operation to the type
  it is written in (no fused multiply-add, no excess precision).
\<close>

fun fneg :: "fp \<Rightarrow> fp" where
  "fneg (Val x) = Val (- x)"
| "fneg Pos_inf = Neg_inf"
| "fneg Neg_inf = Pos_inf"
| "fneg Not_a_number = Not_a_number"

fun fabs :: "fp \<Rightarrow> fp" where
  "fabs (Val x) = Val \<bar>x\<bar>"
| "fabs Pos_inf = Pos_inf"
| "fabs Neg_inf = Pos_inf"
| "fabs Not_a_number = Not_a_number"

fun fadd :: "format \<Rightarrow> fp \<Rightarrow> fp \<Rightarrow> fp" where
  "fadd fmt (Val x) (Val y) = rnd fmt (x + y)"
| "fadd fmt Not_a_number b = Not_a_number"
| "fadd fmt a Not_a_number = Not_a_number"
| "fadd fmt Pos_inf Neg_inf = Not_a_number"
| "fadd fmt Neg_inf Pos_inf = Not_a_number"
| "fadd fmt Pos_inf b = Pos_inf"
| "fadd fmt Neg_inf b = Neg_inf"
| "fadd fmt (Val x) b = b"

definition fsub :: "format \<Rightarrow> fp \<Rightarrow> fp \<Rightarrow> fp" where
  "fsub fmt a b = fadd fmt a (fneg b)"

fun fmul :: "format \<Rightarrow> fp \<Rightarrow> fp \<Rightarrow> fp" where
  "fmul fmt (Val x) (Val y) = rnd fmt (x * y)"
| "fmul fmt Not_a_number b = Not_a_number"
| "fmul fmt a Not_a_number = Not_a_number"
| "fmul fmt (Val x) b = (if x = 0 then Not_a_number else if 0 < x then b else fneg b)"
| "fmul fmt a (Val y) = (if y = 0 then Not_a_number else if 0 < y then a else fneg a)"
| "fmul fmt Pos_inf b = b"
| "fmul fmt Neg_inf b = fneg b"

fun flt :: "fp \<Rightarrow> fp \<Rightarrow> bool" where
  "flt (Val x) (Val y) \<longleftrightarrow> x < y"
| "flt Not_a_number b \<longleftrightarrow> False"
| "flt a Not_a_number \<longleftrightarrow> False"
| "flt Pos_inf b \<longleftrightarrow> False"
| "flt a Neg_inf \<longleftrightarrow> False"
| "flt a b \<longleftrightarrow> True"

fun fle :: "fp \<Rightarrow> fp \<Rightarrow> bool" where
  "fle (Val x) (Val y) \<longleftrightarrow> x \<le> y"
| "fle Not_a_number b \<longleftrightarrow> False"
| "fle a Not_a_number \<longleftrightarrow> False"
| "fle Neg_inf b \<longleftrightarrow> True"
| "fle a Pos_inf \<longleftrightarrow> True"
| "fle a b \<longleftrightarrow> False"

section \<open>Inlier scoring (\<open>get_inliers\<close>)\<close>

text \<open>
  The test both loops of \<open>get_inliers\<close> apply to a point: the model is divided by
  \<open>hom = sqrt (a\<^sup>2 + b\<^sup>2 + c\<^sup>2)\<close> and the point is an inlier when
  \<open>fabs (a x + b y + c z + d) < thr\<close>.  With \<open>hom = 0\<close> the float division yields
  not-a-number, and so does a not-a-number offset; every comparison is then false.
\<close>

definition is_inlier :: "plane \<Rightarrow> real \<Rightarrow> point \<Rightarrow> bool" where
  "is_inlier model thr pt =
     (case model of (a0, b0, c0, d0) \<Rightarrow>
      case pt of (x, y, z) \<Rightarrow>
        let hom = sqrt (a0 * a0 + b0 * b0 + c0 * c0) in
        if hom = 0 then False
        else (case d0 of
                None \<Rightarrow> False
              | Some d1 \<Rightarrow>
                  \<bar>a0 / hom * x + b0 / hom * y + c0 / hom * z + d1 / hom\<bar> < thr))"

text \<open>
  First loop (\<open>p < cut\<close>): every point is scored.  The mask entries are produced in
  index order, \<open>num_inliers\<close> is the running count.
\<close>

fun score_head :: "plane \<Rightarrow> real \<Rightarrow> cloud \<Rightarrow> int \<Rightarrow> bool list \<times> int" where
  "score_head model thr [] num_inliers = ([], num_inliers)"
| "score_head model thr (pt # rest) num_inliers =
     (if is_inlier model thr pt
      then (case score_head model thr rest (num_inliers + 1) of
              (m, n) \<Rightarrow> (True # m, n))
      else (case score_head model thr rest num_inliers of
              (m, n) \<Rightarrow> (False # m, n)))"

text \<open>
  Second loop (\<open>cut \<le> p < pts_size\<close>): after scoring point \<open>p\<close> the loop breaks when
  \<open>num_inliers + pts_size - p < best_inls\<close>; the entries after a break keep the
  \<open>false\<close> that \<open>std::fill\<close> wrote.
\<close>

fun score_tail :: "plane \<Rightarrow> real \<Rightarrow> int \<Rightarrow> nat \<Rightarrow> nat \<Rightarrow> cloud \<Rightarrow> int \<Rightarrow> bool list \<times> int" where
  "score_tail model thr best_inls pts_size p [] num_inliers = ([], num_inliers)"
| "score_tail model thr best_inls pts_size p (pt # rest) num_inliers =
     (let hit = is_inlier model thr pt;
          num_inliers' = (if hit then num_inliers + 1 else num_inliers)
      in if num_inliers' + int pts_size - int p < best_inls
         then (hit # replicate (length rest) False, num_inliers')
         else (case score_tail model thr best_inls pts_size (Suc p) rest num_inliers' of
                 (m, n) \<Rightarrow> (hit # m, n)))"

definition get_inliers :: "plane \<Rightarrow> cloud \<Rightarrow> real \<Rightarrow> int \<Rightarrow> bool list \<times> int" where
  "get_inliers model pts thr best_inls =
     (let pts_size = length pts;
          cut = pts_size * 2 div 3
      in case score_head model thr (take cut pts) 0 of
           (m1, n1) \<Rightarrow>
             (case score_tail model thr best_inls pts_size cut (drop cut pts) n1 of
                (m2, n2) \<Rightarrow> (m1 @ m2, n2)))"

text \<open>
  The header \<open>ransac.h\<close>, which declares \<open>get_inliers\<close> with the default value of
  its last parameter, is not among the sources.
\<close>

definition default_best_inls :: int where
  \<comment> \<open>Modelled from the spec: the default argument of \<open>get_inliers\<close> declared in the
      missing \<open>ransac.h\<close>; the specification gives \<open>best_so_far\<close> the default 0.\<close>
  "default_best_inls = 0"

section \<open>Plane estimation (\<open>total_least_squares_plane_estimate\<close>)\<close>

text \<open>
  \<open>cv::Vec3f::dot\<close>: \<open>float s = 0; for (i = 0; i < 3; i++) s += val[i] * M.val[i];\<close>
\<close>

definition vec3f_dot :: "fp \<times> fp \<times> fp \<Rightarrow> fp \<times> fp \<times> fp \<Rightarrow> fp" where
  "vec3f_dot u v =
     (case u of (u0, u1, u2) \<Rightarrow> case v of (v0, v1, v2) \<Rightarrow>
        fadd binary32
          (fadd binary32 (fadd binary32 (Val 0) (fmul binary32 u0 v0)) (fmul binary32 u1 v1))
          (fmul binary32 u2 v2))"

text \<open>
  The collinearity test made when exactly three samples are given.  The differences,
  the dot products, the two products and their difference are \<open>float\<close> operations; the
  bound is the \<open>double\<close> nearest to \<open>0.0001\<close>.
\<close>

definition three_points_collinear :: "point \<Rightarrow> point \<Rightarrow> point \<Rightarrow> bool" where
  "three_points_collinear p1 p2 p3 =
     (case p1 of (x1, y1, z1) \<Rightarrow>
      case p2 of (x2, y2, z2) \<Rightarrow>
      case p3 of (x3, y3, z3) \<Rightarrow>
        let ba = (rnd binary32 (x1 - x2), rnd binary32 (y1 - y2), rnd binary32 (z1 - z2));
            ca = (rnd binary32 (x1 - x3), rnd binary32 (y1 - y3), rnd binary32 (z1 - z3));
            ba_dot_ca = fabs (vec3f_dot ca ba)
        in flt (fabs (fsub binary32 (fmul binary32 ba_dot_ca ba_dot_ca)
                        (fmul binary32 (vec3f_dot ba ba) (vec3f_dot ca ca))))
               (rnd binary64 0.0001))"

text \<open>
  \<open>cv::eigen\<close> is a library routine.  It is a parameter of the model: given the
  \<open>3 \<times> 3\<close> matrix \<open>pd_mat\<close> (as its three rows) it yields the third row of the
  eigenvector matrix, either three finite numbers or the report that a component is
  infinite (the case \<open>std::isinf\<close> looks for).
\<close>

datatype eigen_row = Row real real real | Row_inf

text \<open>
  The centroid of the sample (\<open>sum / sample_num\<close> per axis) and the matrix
  \<open>pd_mat = UT * U\<close> of the centred sample.
\<close>

definition sample_mean :: "cloud \<Rightarrow> nat list \<Rightarrow> point" where
  "sample_mean input sample =
     (let sample_num = length sample;
          sum_x = (\<Sum>i\<leftarrow>sample. fst (input ! i));
          sum_y = (\<Sum>i\<leftarrow>sample. fst (snd (input ! i)));
          sum_z = (\<Sum>i\<leftarrow>sample. snd (snd (input ! i)))
      in (sum_x / real sample_num, sum_y / real sample_num, sum_z / real sample_num))"

definition scatter_matrix :: "cloud \<Rightarrow> nat list \<Rightarrow> real list list" where
  "scatter_matrix input sample =
     (case sample_mean input sample of
        (mean_x, mean_y, mean_z) \<Rightarrow>
          let U = map (\<lambda>i. case input ! i of (x, y, z) \<Rightarrow> [x - mean_x, y - mean_y, z - mean_z])
                    sample
          in map (\<lambda>r. map (\<lambda>c. (\<Sum>row\<leftarrow>U. row ! r * row ! c)) [0, 1, 2]) [0, 1, 2])"

text \<open>
  The sample is the list of the first \<open>sample_num\<close> entries of the index array; the
  callers only pass indices of rows of \<open>input\<close>.  With an empty sample the centroid is
  \<open>0 / 0\<close> and so is the offset of the plane.
\<close>

definition total_least_squares_plane_estimate ::
    "(real list list \<Rightarrow> eigen_row) \<Rightarrow> cloud \<Rightarrow> nat list \<Rightarrow> plane option" where
  "total_least_squares_plane_estimate eigen input sample =
     (let sample_num = length sample in
      if sample_num = 3 \<and>
         three_points_collinear (input ! (sample ! 0)) (input ! (sample ! 1)) (input ! (sample ! 2))
      then None
      else
        (case sample_mean input sample of
           (mean_x, mean_y, mean_z) \<Rightarrow>
             (case eigen (scatter_matrix input sample) of
                Row_inf \<Rightarrow> None
              | Row a b c \<Rightarrow>
                  if a = 0 \<and> b = 0 \<and> c = 0 then None
                  else Some (a, b, c,
                             if sample_num = 0 then None
                             else Some (- a * mean_x - b * mean_y - c * mean_z)))))"

section \<open>Normal constraint (\<open>check_same_normal\<close>)\<close>

text \<open>
  The three sums of products are \<open>float\<close> expressions (their operands are components of
  a \<open>cv::Vec4f\<close> and a \<open>cv::Vec3f\<close>); each is widened to \<open>double\<close>, which changes no
  value, and the rest is \<open>double\<close> arithmetic.
\<close>

definition check_same_normal :: "plane \<Rightarrow> vec3f \<Rightarrow> real \<Rightarrow> bool" where
  "check_same_normal actual_plane expect_normal thr =
     (case actual_plane of (a0, a1, a2, a3) \<Rightarrow>
      case expect_normal of (e0, e1, e2) \<Rightarrow>
        let dot = fadd binary32
                    (fadd binary32 (fmul binary32 (Val a0) (Val e0))
                                   (fmul binary32 (Val a1) (Val e1)))
                    (fmul binary32 (Val a2) (Val e2));
            sqr_modulu_a = fadd binary32
                    (fadd binary32 (fmul binary32 (Val a0) (Val a0))
                                   (fmul binary32 (Val a1) (Val a1)))
                    (fmul binary32 (Val a2) (Val a2));
            sqr_modulu_b = fadd binary32
                    (fadd binary32 (fmul binary32 (Val e0) (Val e0))
                                   (fmul binary32 (Val e1) (Val e1)))
                    (fmul binary32 (Val e2) (Val e2));
            cos_sqr = fmul binary64 dot dot;
            sqr_modulu_ab = fmul binary64 sqr_modulu_a sqr_modulu_b
        in fle (fmul binary64 (fsub binary64 cos_sqr sqr_modulu_ab)
                              (fsub binary64 cos_sqr sqr_modulu_ab))
               (fmul binary64 (Val thr) sqr_modulu_ab))"

text \<open>The guard \<open>normal != nullptr && !check_same_normal (...)\<close> of both search loops.\<close>

definition normal_rejects :: "vec3f option \<Rightarrow> plane \<Rightarrow> real \<Rightarrow> bool" where
  "normal_rejects normal model normal_diff_thr =
     (case normal of
        None \<Rightarrow> False
      | Some expect_normal \<Rightarrow> \<not> check_same_normal model expect_normal normal_diff_thr)"

section \<open>Library routines the search depends on\<close>

text \<open>
  The plane estimator is reached through the environment, next to the random number
  routines of OpenCV: \<open>cv::RNG::uniform (0, n)\<close>, the state of a default-constructed
  \<open>cv::RNG\<close>, and \<open>cv::randShuffle\<close> (which permutes the pool with the global
  generator, whose state \<open>'g\<close> is threaded through the calls).  \<open>cv_env\<close> is the
  environment of the program itself.
\<close>

record 'g env =
  estimate :: "cloud \<Rightarrow> nat list \<Rightarrow> plane option"
  rng_default :: 'g
  uniform :: "'g \<Rightarrow> nat \<Rightarrow> nat \<times> 'g"
  randShuffle :: "'g \<Rightarrow> nat list \<Rightarrow> nat list \<times> 'g"

definition cv_env ::
    "(real list list \<Rightarrow> eigen_row) \<Rightarrow> 'g \<Rightarrow> ('g \<Rightarrow> nat \<Rightarrow> nat \<times> 'g) \<Rightarrow>
     ('g \<Rightarrow> nat list \<Rightarrow> nat list \<times> 'g) \<Rightarrow> 'g env" where
  "cv_env eigen rng0 unif shuf =
     \<lparr>estimate = total_least_squares_plane_estimate eigen,
      rng_default = rng0, uniform = unif, randShuffle = shuf\<rparr>"

section \<open>Local optimization\<close>

text \<open>
  The variables the local-optimization loop reads and writes.  \<open>num_inliers\<close> is the
  count scored last (\<open>lo_inls\<close> in \<open>get_planes\<close>).
\<close>

record 'g lo_state =
  best_model :: plane
  best_inls :: int
  num_inliers :: int
  inliers :: "bool list"
  random_pool :: "nat list"
  shuffle_rng :: 'g

text \<open>
  The inner \<open>for (int p : random_pool)\<close>: the pool indices whose mask entry is set are
  appended to \<open>inlier_sample\<close> until \<open>sample_cnt >= max_lo_inliers\<close>.  The pool is a
  permutation of the row indices, so every \<open>p\<close> is an index of the mask.
\<close>

fun collect_inlier_sample :: "nat \<Rightarrow> bool list \<Rightarrow> nat list \<Rightarrow> nat list \<Rightarrow> nat list" where
  "collect_inlier_sample max_lo_inliers inl [] inlier_sample = inlier_sample"
| "collect_inlier_sample max_lo_inliers inl (p # pool) inlier_sample =
     (if inl ! p
      then (let inlier_sample' = inlier_sample @ [p]
            in if length inlier_sample' \<ge> max_lo_inliers then inlier_sample'
               else collect_inlier_sample max_lo_inliers inl pool inlier_sample')
      else collect_inlier_sample max_lo_inliers inl pool inlier_sample)"

text \<open>
  The loop \<open>for (lo_iter = 0; lo_iter < max_lo_iters; ++lo_iter)\<close>, written twice in
  the source (in \<open>get_plane\<close> with 20 samples and 10 rounds, in \<open>get_planes\<close> with the
  constants of line 147).  The first numeric argument is \<open>max_lo_inliers\<close>, the second
  the number of rounds still to run.
\<close>

fun local_optimization ::
    "'g env \<Rightarrow> cloud \<Rightarrow> real \<Rightarrow> vec3f option \<Rightarrow> real \<Rightarrow> nat \<Rightarrow> nat \<Rightarrow>
     ('g, 'z) lo_state_scheme \<Rightarrow> ('g, 'z) lo_state_scheme" where
  "local_optimization E pts thr normal normal_diff_thr max_lo_inliers 0 st = st"
| "local_optimization E pts thr normal normal_diff_thr max_lo_inliers (Suc rounds) st =
     (case randShuffle E (shuffle_rng st) (random_pool st) of
        (pool, g) \<Rightarrow>
          let st1 = st\<lparr>random_pool := pool, shuffle_rng := g\<rparr>;
              inlier_sample = collect_inlier_sample max_lo_inliers (inliers st) pool []
          in case estimate E pts inlier_sample of
               None \<Rightarrow> local_optimization E pts thr normal normal_diff_thr max_lo_inliers rounds st1
             | Some lo_model \<Rightarrow>
                 if normal_rejects normal lo_model normal_diff_thr
                 then local_optimization E pts thr normal normal_diff_thr max_lo_inliers rounds st1
                 else
                   (case get_inliers lo_model pts thr (best_inls st1) of
                      (m, n) \<Rightarrow>
                        let st2 = st1\<lparr>inliers := m, num_inliers := n\<rparr>
                        in if best_inls st2 < n
                           then local_optimization E pts thr normal normal_diff_thr max_lo_inliers rounds
                                  (st2\<lparr>best_model := lo_model, best_inls := n\<rparr>)
                           else if best_inls st2 = n then st2
                           else local_optimization E pts thr normal normal_diff_thr max_lo_inliers
                                  rounds st2))"

declare local_optimization.simps(2) [simp del]

section \<open>Single-plane RANSAC (\<open>get_plane\<close>)\<close>

text \<open>
  A \<open>double\<close> that may be infinite or not-a-number: the value of \<open>max_hyp\<close>.  With
  \<open>w = (best_inls / pts_size)\<^sup>3\<close>: \<open>log 0\<close> is \<open>-\<infinity>\<close> and the quotient is then 0; \<open>log\<close>
  of a negative number is not-a-number; a zero logarithm makes the quotient infinite
  (in floating point already when \<open>w\<close> is so small that \<open>1 - w\<close> rounds to 1).  The
  cast to \<open>int\<close> cuts the fraction off.
\<close>

datatype double = Finite real | Infinite | NaN

definition max_hyp :: "int \<Rightarrow> nat \<Rightarrow> double" where
  "max_hyp best pts_size =
     (let w = (real_of_int best / real pts_size) ^ 3 in
      if 1 - w = 0 then Finite 0
      else if 1 - w < 0 then NaN
      else if ln (1 - w) = 0 then Infinite
      else Finite (3 * ln (1 - 0.95) / ln (1 - w)))"

definition static_cast_int :: "real \<Rightarrow> int" where
  "static_cast_int r = (if 0 \<le> r then \<lfloor>r\<rfloor> else \<lceil>r\<rceil>)"

text \<open>
  \<open>if (!std::isinf (max_hyp) && max_hyp < max_iterations)
      max_iterations = static_cast<int> (max_hyp);\<close>
\<close>

definition shrink_budget :: "double \<Rightarrow> int \<Rightarrow> int" where
  "shrink_budget h budget =
     (case h of
        Finite r \<Rightarrow> if r < real_of_int budget then static_cast_int r else budget
      | Infinite \<Rightarrow> budget
      | NaN \<Rightarrow> budget)"

record 'g ransac_state = "'g lo_state" +
  iter :: int
  max_iterations :: int
  rng :: 'g

text \<open>One pass through the body of the main loop (without the \<open>++iter\<close>).\<close>

definition ransac_iteration ::
    "'g env \<Rightarrow> cloud \<Rightarrow> real \<Rightarrow> vec3f option \<Rightarrow> real \<Rightarrow> 'g ransac_state \<Rightarrow> 'g ransac_state" where
  "ransac_iteration E pts thr normal normal_diff_thr st =
     (let pts_size = length pts in
      case uniform E (rng st) pts_size of (i0, r1) \<Rightarrow>
      case uniform E r1 pts_size of (i1, r2) \<Rightarrow>
      case uniform E r2 pts_size of (i2, r3) \<Rightarrow>
        let st1 = st\<lparr>rng := r3\<rparr> in
        case estimate E pts [i0, i1, i2] of
          None \<Rightarrow> st1
        | Some model \<Rightarrow>
            if normal_rejects normal model normal_diff_thr then st1
            else
              (case get_inliers model pts thr (best_inls st1) of
                 (m, n) \<Rightarrow>
                   let st2 = st1\<lparr>inliers := m, num_inliers := n\<rparr>
                   in if n > best_inls st2
                      then
                        (let st3 = local_optimization E pts thr normal normal_diff_thr 20 10
                                     (st2\<lparr>best_model := model, best_inls := n\<rparr>)
                         in st3\<lparr>max_iterations :=
                                  shrink_budget (max_hyp (best_inls st3) pts_size) (max_iterations st3)\<rparr>)
                      else st2))"

text \<open>
  The main loop \<open>for (iter = 0; iter < max_iterations; ++iter)\<close>.  The bound is a
  variable the body may lower, so the loop ends because the body never raises it.
\<close>

function ransac_loop ::
    "'g env \<Rightarrow> cloud \<Rightarrow> real \<Rightarrow> vec3f option \<Rightarrow> real \<Rightarrow> 'g ransac_state \<Rightarrow> 'g ransac_state" where
  "ransac_loop E pts thr normal normal_diff_thr st =
     (if iter st < max_iterations st
      then (let st' = ransac_iteration E pts thr normal normal_diff_thr st
            in ransac_loop E pts thr normal normal_diff_thr (st'\<lparr>iter := iter st' + 1\<rparr>))
      else st)"
  by pat_completeness auto
termination
proof (relation "measure (\<lambda>(E, pts, thr, normal, ndt, st). nat (max_iterations st - iter st))")
  show "wf (measure (\<lambda>(E, pts, thr, normal, ndt, st). nat (max_iterations st - iter st)))"
    by simp
next
  fix E :: "'g env" and pts thr normal normal_diff_thr and st st' :: "'g ransac_state"
  assume run: "iter st < max_iterations st"
    and body: "st' = ransac_iteration E pts thr normal normal_diff_thr st"
  have lo: "iter (local_optimization E pts thr normal normal_diff_thr k rounds s) = iter s \<and>
            max_iterations (local_optimization E pts thr normal normal_diff_thr k rounds s)
              = max_iterations s"
    for k rounds and s :: "'g ransac_state"
    by (induction rounds arbitrary: s)
       (auto simp: local_optimization.simps Let_def split: prod.splits option.splits)
  have cut: "shrink_budget h b \<le> b" for h b
    unfolding shrink_budget_def static_cast_int_def
    by (auto split: double.splits simp: floor_le_iff ceiling_le_iff)
  have "max_iterations st' \<le> max_iterations st" and "iter st' = iter st"
    unfolding body ransac_iteration_def
    by (auto simp: Let_def lo cut split: prod.splits option.splits)
  with run show "((E, pts, thr, normal, normal_diff_thr, st'\<lparr>iter := iter st' + 1\<rparr>),
                  (E, pts, thr, normal, normal_diff_thr, st))
                 \<in> measure (\<lambda>(E, pts, thr, normal, ndt, st). nat (max_iterations st - iter st))"
    by simp
qed

declare ransac_loop.simps [simp del]

text \<open>
  \<open>get_plane\<close>.  \<open>best_model\<close> and \<open>inliers\<close> are output parameters: the result carries
  the returned count, the two outputs as the call leaves them, and the state of the
  global generator.
\<close>

definition get_plane ::
    "'g env \<Rightarrow> plane \<Rightarrow> bool list \<Rightarrow> cloud \<Rightarrow> real \<Rightarrow> int \<Rightarrow> vec3f option \<Rightarrow> real \<Rightarrow> 'g \<Rightarrow>
     int \<times> plane \<times> bool list \<times> 'g" where
  "get_plane E best_model0 inliers0 pts thr max_iters normal normal_diff_thr g =
     (let pts_size = length pts in
      if pts_size < 3 then (0, best_model0, inliers0, g)
      else
        let st = ransac_loop E pts thr normal normal_diff_thr
                   \<lparr>best_model = best_model0, best_inls = 0, num_inliers = 0,
                    inliers = inliers0, random_pool = [0..<pts_size], shuffle_rng = g,
                    iter = 0, max_iterations = max_iters, rng = rng_default E\<rparr>
        in if best_inls st \<noteq> 0 \<and> best_inls st \<ge> num_inliers st
           then (case get_inliers (best_model st) pts thr default_best_inls of
                   (m, n) \<Rightarrow> (n, best_model st, m, shuffle_rng st))
           else (best_inls st, best_model st, inliers st, shuffle_rng st))"

section \<open>The orchestrator (\<open>get_planes\<close>)\<close>

text \<open>
  Compaction: the rows (or remap entries) whose mask entry is false are copied, in
  order, into the next working set.
\<close>

definition remove_inliers :: "'a list \<Rightarrow> bool list \<Rightarrow> 'a list" where
  "remove_inliers xs inl = map fst (filter (\<lambda>(x, b). \<not> b) (zip xs inl))"

text \<open>
  Phase A, the loop \<open>for (num_planes = 1; num_planes <= desired_num_planes; ++num_planes)\<close>.
  The numeric argument counts the rounds still allowed,
  \<open>desired_num_planes - num_planes + 1\<close>; the result is the vector \<open>planes_\<close> (here
  \<open>planes_a\<close>).  \<open>model_\<close> is a fresh \<open>cv::Vec4f\<close> (all zero) in every round.
\<close>

fun phase_a ::
    "'g env \<Rightarrow> real \<Rightarrow> int \<Rightarrow> vec3f option \<Rightarrow> real \<Rightarrow> nat \<Rightarrow> cloud \<Rightarrow> bool list \<Rightarrow> 'g \<Rightarrow>
     plane list \<times> 'g" where
  "phase_a E thr max_iters normal normal_diff_thr 0 pts3d_plane_fit inliers_a g = ([], g)"
| "phase_a E thr max_iters normal normal_diff_thr (Suc rounds) pts3d_plane_fit inliers_a g =
     (case get_plane E (0, 0, 0, Some 0) inliers_a pts3d_plane_fit thr max_iters normal
             normal_diff_thr g of
        (inliers_num, model_a, inliers_a', g') \<Rightarrow>
          if inliers_num = 0 then ([], g')
          else if rounds = 0 then ([model_a], g')
          else (case phase_a E thr max_iters normal normal_diff_thr rounds
                       (remove_inliers pts3d_plane_fit inliers_a') inliers_a' g' of
                  (found, g'') \<Rightarrow> (model_a # found, g'')))"

text \<open>
  Phase B.  The working set \<open>points3d_\<close>, the remap array \<open>orig_pts_idx\<close> (the entries
  of the current working set), the label matrix, the vector \<open>planes\<close> of the caller and
  \<open>plane_inls_num\<close> with its closing 0.
\<close>

record 'g refine_state =
  points3d :: cloud
  orig_pts_idx :: "nat list"
  labels :: "nat list"
  planes :: "plane list"
  plane_inls_num :: "int list"
  the_rng :: 'g

text \<open>\<open>int e = 0; while (best_inls < plane_inls_num[e]) ++e;\<close>\<close>

fun rank_position :: "int \<Rightarrow> int list \<Rightarrow> nat" where
  "rank_position best [] = 0"
| "rank_position best (x # xs) = (if best < x then Suc (rank_position best xs) else 0)"

text \<open>\<open>v.insert (v.begin () + e, x)\<close>\<close>

definition insert_at :: "nat \<Rightarrow> 'a \<Rightarrow> 'a list \<Rightarrow> 'a list" where
  "insert_at e x v = take e v @ x # drop e v"

text \<open>\<open>if (inliers[p]) labels_ptr[orig_pts_idx[p]] = plane_num;\<close> for every row \<open>p\<close>.\<close>

fun write_labels :: "nat list \<Rightarrow> bool list \<Rightarrow> nat \<Rightarrow> nat list \<Rightarrow> nat list" where
  "write_labels (i # idx) (b # inl) plane_num labels_ptr =
     write_labels idx inl plane_num (if b then labels_ptr[i := plane_num] else labels_ptr)"
| "write_labels idx inl plane_num labels_ptr = labels_ptr"

definition phase_b_max_lo_inliers :: nat where
  "phase_b_max_lo_inliers = 300"

definition phase_b_max_lo_iters :: nat where
  "phase_b_max_lo_iters = 3"

text \<open>
  The refinement of one candidate on the working set: the first scoring, the local
  optimization and the closing rescoring.  It yields the refined plane, its count,
  its mask and the generator state.
\<close>

definition refine_candidate ::
    "'g env \<Rightarrow> real \<Rightarrow> vec3f option \<Rightarrow> real \<Rightarrow> plane \<Rightarrow> cloud \<Rightarrow> 'g \<Rightarrow>
     plane \<times> int \<times> bool list \<times> 'g" where
  "refine_candidate E thr normal normal_diff_thr candidate pts g =
     (case get_inliers candidate pts thr default_best_inls of
        (m0, n0) \<Rightarrow>
          let lo = local_optimization E pts thr normal normal_diff_thr
                     phase_b_max_lo_inliers phase_b_max_lo_iters
                     \<lparr>best_model = candidate, best_inls = n0, num_inliers = 0, inliers = m0,
                      random_pool = [0..<length pts], shuffle_rng = g\<rparr>
          in if best_inls lo \<ge> num_inliers lo
             then (case get_inliers (best_model lo) pts thr default_best_inls of
                     (m, n) \<Rightarrow> (best_model lo, n, m, shuffle_rng lo))
             else (best_model lo, best_inls lo, inliers lo, shuffle_rng lo))"

text \<open>The body of \<open>for (plane_num = 1; plane_num <= planes_cnt; ++plane_num)\<close>.\<close>

definition phase_b_round ::
    "'g env \<Rightarrow> real \<Rightarrow> vec3f option \<Rightarrow> real \<Rightarrow> plane list \<Rightarrow> nat \<Rightarrow>
     'g refine_state \<Rightarrow> 'g refine_state" where
  "phase_b_round E thr normal normal_diff_thr planes_a plane_num st =
     (case refine_candidate E thr normal normal_diff_thr (planes_a ! (plane_num - 1))
             (points3d st) (the_rng st) of
        (best, best_cnt, inl, g) \<Rightarrow>
          let e = rank_position best_cnt (plane_inls_num st);
              st1 = st\<lparr>plane_inls_num := insert_at e best_cnt (plane_inls_num st),
                       planes := insert_at e best (planes st),
                       the_rng := g\<rparr>
          in if plane_num = length planes_a
             then st1\<lparr>labels := write_labels (orig_pts_idx st) inl plane_num (labels st)\<rparr>
             else st1\<lparr>points3d := remove_inliers (points3d st) inl,
                      orig_pts_idx := remove_inliers (orig_pts_idx st) inl,
                      labels := write_labels (orig_pts_idx st) inl plane_num (labels st)\<rparr>)"

text \<open>
  The state on entry to the Phase B loop, and the state after the rounds
  \<open>1, \<dots>, k\<close>.  \<open>planes\<close> is passed by reference and never cleared: the loop inserts
  into whatever the caller hands in (\<open>planes_in\<close>).  The \<open>break\<close> of the last round
  leaves the loop where its test would.
\<close>

definition phase_b_init :: "cloud \<Rightarrow> plane list \<Rightarrow> 'g \<Rightarrow> 'g refine_state" where
  "phase_b_init pts planes_in g =
     \<lparr>points3d = pts, orig_pts_idx = [0..<length pts], labels = replicate (length pts) 0,
      planes = planes_in, plane_inls_num = [0], the_rng = g\<rparr>"

definition phase_b_rounds ::
    "'g env \<Rightarrow> real \<Rightarrow> vec3f option \<Rightarrow> real \<Rightarrow> plane list \<Rightarrow> nat \<Rightarrow>
     'g refine_state \<Rightarrow> 'g refine_state" where
  "phase_b_rounds E thr normal normal_diff_thr planes_a k st =
     fold (phase_b_round E thr normal normal_diff_thr planes_a) [1..<Suc k] st"

definition phase_b ::
    "'g env \<Rightarrow> real \<Rightarrow> vec3f option \<Rightarrow> real \<Rightarrow> plane list \<Rightarrow> cloud \<Rightarrow> plane list \<Rightarrow> 'g \<Rightarrow>
     'g refine_state" where
  "phase_b E thr normal normal_diff_thr planes_a pts planes_in g =
     phase_b_rounds E thr normal normal_diff_thr planes_a (length planes_a)
       (phase_b_init pts planes_in g)"

text \<open>
  The argument \<open>points3d\<close> (here \<open>points3d_arg\<close>) is a \<open>cv::InputArray\<close>: a
  \<open>std::vector\<close> of points (for which \<open>isVector ()\<close> holds), or a matrix, given by its
  header (rows, columns, channels) and its elements in row-major order, the channels
  of an element next to each other.
\<close>

record mat =
  rows :: nat
  cols :: nat
  channels :: nat
  elems :: "real list"

datatype input_array = Std_vector cloud | Matrix mat

text \<open>The \<open>cv::Exception\<close> that \<open>CV_CheckEQ (points3d_.cols, 3, ...)\<close> raises.\<close>

datatype error = Invalid_dimension

text \<open>
  \<open>points3d_.reshape (1, (int) points3d_.total ())\<close>: one channel and one row per
  element (asked for 0 rows, on an empty matrix, OpenCV keeps the rows and widens the
  columns); and \<open>transpose (points3d_, points3d_)\<close>, which only ever meets a matrix of
  one channel.  The matrix is taken to be continuous.
\<close>

definition reshape_to_rows :: "mat \<Rightarrow> mat" where
  "reshape_to_rows m =
     (if rows m * cols m = 0 then m\<lparr>cols := cols m * channels m, channels := 1\<rparr>
      else m\<lparr>rows := rows m * cols m, cols := channels m, channels := 1\<rparr>)"

definition transpose_mat :: "mat \<Rightarrow> mat" where
  "transpose_mat m =
     m\<lparr>rows := cols m, cols := rows m,
       elems := concat (map (\<lambda>c. map (\<lambda>r. elems m ! (r * cols m + c)) [0..<rows m])
                          [0..<cols m])\<rparr>"

text \<open>
  The first lines of \<open>get_planes\<close>, which make the \<open>N \<times> 3\<close> matrix \<open>points3d_\<close> of the
  argument.  The conversion to \<open>CV_32F\<close> leaves the elements the floats they are taken
  to be.
\<close>

definition input_points :: "input_array \<Rightarrow> error + cloud" where
  "input_points points3d_arg =
     (case points3d_arg of
        Std_vector pts \<Rightarrow> Inr pts
      | Matrix m \<Rightarrow>
          let m1 = (if channels m \<noteq> 1 then reshape_to_rows m else m);
              m2 = (if rows m1 < cols m1 then transpose_mat m1 else m1)
          in if cols m2 \<noteq> 3 then Inl Invalid_dimension
             else Inr (map (\<lambda>r. (elems m2 ! (3 * r), elems m2 ! (3 * r + 1), elems m2 ! (3 * r + 2)))
                         [0..<rows m2]))"

text \<open>
  \<open>get_planes\<close>.  \<open>VoxelGrid\<close> emits its representatives in the iteration order of an
  \<open>unordered_map\<close>; the downsampled cloud is therefore a parameter.  The mask buffer of
  Phase A is uninitialised memory that is never read before \<open>get_inliers\<close> fills it.
  The result is the exception, or the label matrix and the vector \<open>planes\<close>.
\<close>

definition get_planes ::
    "'g env \<Rightarrow> (cloud \<Rightarrow> real \<Rightarrow> cloud) \<Rightarrow> plane list \<Rightarrow> input_array \<Rightarrow> real \<Rightarrow> int \<Rightarrow> int \<Rightarrow>
     real \<Rightarrow> vec3f option \<Rightarrow> real \<Rightarrow> 'g \<Rightarrow> error + nat list \<times> plane list" where
  "get_planes E VoxelGrid planes_in points3d_arg thr max_iters desired_num_planes grid_size
      normal normal_diff_thr g =
     (case input_points points3d_arg of
        Inl err \<Rightarrow> Inl err
      | Inr pts \<Rightarrow>
          let pts3d_plane_fit = (if grid_size > 0 then VoxelGrid pts grid_size else pts)
          in case phase_a E thr max_iters normal normal_diff_thr (nat desired_num_planes)
                    pts3d_plane_fit (replicate (length pts3d_plane_fit) False) g of
               (planes_a, g') \<Rightarrow>
                 let st = phase_b E thr normal normal_diff_thr planes_a pts planes_in g'
                 in Inr (labels st, planes st))"

section \<open>Notions used to state the properties\<close>

text \<open>
  The edge vector \<open>p - q\<close> (the source's \<open>ba\<close> is \<open>edge p1 p2\<close>, its \<open>ca\<close> is
  \<open>edge p1 p3\<close>) and the cross product, in exact arithmetic: three points are
  collinear when the cross product of their edges is zero.
\<close>

definition edge :: "point \<Rightarrow> point \<Rightarrow> vec3f" where
  "edge p q = (case p of (x1, y1, z1) \<Rightarrow> case q of (x2, y2, z2) \<Rightarrow> (x1 - x2, y1 - y2, z1 - z2))"

definition cross3 :: "vec3f \<Rightarrow> vec3f \<Rightarrow> vec3f" where
  "cross3 u v = (case u of (u0, u1, u2) \<Rightarrow> case v of (v0, v1, v2) \<Rightarrow>
                   (u1 * v2 - u2 * v1, u2 * v0 - u0 * v2, u0 * v1 - u1 * v0))"

text \<open>
  Two invariants of the Phase B loop.  The working set and the remap array have the
  same length, the remap entries are distinct, and they point at labels that are still
  0; \<open>plane_inls_num\<close> is a descending list closed by 0.
\<close>

definition working_set_ok :: "'g refine_state \<Rightarrow> bool" where
  "working_set_ok st \<longleftrightarrow>
     length (orig_pts_idx st) = length (points3d st) \<and> distinct (orig_pts_idx st) \<and>
     (\<forall>i \<in> set (orig_pts_idx st). i < length (labels st) \<and> labels st ! i = 0)"

definition ranking_ok :: "'g refine_state \<Rightarrow> bool" where
  "ranking_ok st \<longleftrightarrow>
     plane_inls_num st \<noteq> [] \<and> last (plane_inls_num st) = 0 \<and>
     sorted_wrt (\<ge>) (plane_inls_num st)"

text \<open>
  The environment \<open>E\<close> with its estimator cut off: on a sample of more than \<open>k\<close>
  indices it fails, on every other sample it is the estimator of \<open>E\<close>.  A search that
  runs alike in both environments never fits a sample of more than \<open>k\<close> indices.
\<close>

definition estimate_up_to :: "nat \<Rightarrow> 'g env \<Rightarrow> 'g env" where
  "estimate_up_to k E =
     E\<lparr>estimate := \<lambda>pts sample. if length sample \<le> k then estimate E pts sample else None\<rparr>"

section \<open>Concrete inputs\<close>

text \<open>
  Inputs on which the program is run below.  The eigenvector routine \<open>eigen_z\<close>
  answers \<open>(0, 0, 1)\<close>: on every sample fitted below all points have the same \<open>z\<close>, so
  that this is a unit eigenvector of the scatter matrix for its least eigenvalue 0.
  The generator hands out the indices \<open>0, 1, 2, \<dots>\<close> and the shuffle leaves the pool as
  it is (in \<open>counting_env\<close> it also counts its calls in the generator state).
\<close>

abbreviation (input) eigen_z :: "real list list \<Rightarrow> eigen_row" where
  "eigen_z \<equiv> (\<lambda>m. Row 0 0 1)"

abbreviation (input) demo_env :: "nat env" where
  "demo_env \<equiv> cv_env eigen_z 0 (\<lambda>g n. (g mod n, Suc g)) (\<lambda>g xs. (xs, g))"

abbreviation (input) demo7 :: cloud where
  "demo7 \<equiv> [(0, 0, 0), (3, 0, 0), (0, 3, 0), (0, 0, 10), (3, 0, 10), (0, 3, 10), (3, 3, 10)]"

abbreviation (input) high4 :: cloud where
  "high4 \<equiv> [(0, 0, 10), (3, 0, 10), (0, 3, 10), (3, 3, 10)]"

abbreviation (input) plane_low :: plane where
  "plane_low \<equiv> (0, 0, 1, Some 0)"

abbreviation (input) plane_high :: plane where
  "plane_high \<equiv> (0, 0, 1, Some (- 10))"

abbreviation (input) counting_env :: "nat env" where
  "counting_env \<equiv> cv_env eigen_z 0 (\<lambda>g n. (g mod n, Suc g)) (\<lambda>g xs. (xs, Suc g))"

abbreviation (input) row21 :: cloud where
  "row21 \<equiv> [(0, 0, 0), (1, 0, 0), (2, 0, 0), (3, 0, 0), (4, 0, 0), (5, 0, 0), (6, 0, 0), (7, 0, 0), (8, 0, 0), (9, 0, 0), (10, 0, 0), (11, 0, 0), (12, 0, 0), (13, 0, 0), (14, 0, 0), (15, 0, 0), (16, 0, 0), (17, 0, 0), (18, 0, 0), (19, 0, 0), (20, 0, 0)]"

abbreviation (input) tie6 :: cloud where
  "tie6 \<equiv> [(0, 0, 0), (3, 0, 0), (0, 3, 0), (0, 0, 10), (3, 0, 10), (0, 3, 10)]"

abbreviation (input) high3 :: cloud where
  "high3 \<equiv> [(0, 0, 10), (3, 0, 10), (0, 3, 10)]"

abbreviation (input) line795 :: cloud where
  "line795 \<equiv> [(0, 0, 0), (795, 795, 795), (2385, 2385, 2385)]"


section \<open>Properties of the inlier scorer\<close>

lemma score_head_eq:
  "score_head model thr pts n =
     (map (is_inlier model thr) pts, n + int (length (filter (is_inlier model thr) pts)))"
  by (induction pts arbitrary: n) auto

lemma score_tail_length_aux:
  "score_tail model thr B N p pts n = (m, k) \<Longrightarrow> length m = length pts"
  by (induction pts arbitrary: p n m k) (auto simp: Let_def split: prod.splits if_splits)

lemma score_tail_count_aux:
  "score_tail model thr B N p pts n = (m, k) \<Longrightarrow> k = n + int (length (filter (\<lambda>b. b) m))"
proof (induction pts arbitrary: p n m k)
  case Nil
  then show ?case by simp
next
  case (Cons pt rest)
  let ?n' = "if is_inlier model thr pt then n + 1 else n"
  show ?case
  proof (cases "?n' + int N - int p < B")
    case True
    with Cons.prems show ?thesis by (auto simp: Let_def)
  next
    case False
    obtain m' k' where r: "score_tail model thr B N (Suc p) rest ?n' = (m', k')"
      by (cases "score_tail model thr B N (Suc p) rest ?n'") auto
    from Cons.IH[OF r] have "k' = ?n' + int (length (filter (\<lambda>b. b) m'))" .
    with False r Cons.prems show ?thesis by (auto simp: Let_def)
  qed
qed

lemma score_tail_exhaustive:
  "p + length pts = N \<Longrightarrow> B \<le> snd (score_tail model thr B N p pts n) \<Longrightarrow>
   score_tail model thr B N p pts n =
     (map (is_inlier model thr) pts, n + int (length (filter (is_inlier model thr) pts)))"
proof (induction pts arbitrary: p n)
  case Nil
  then show ?case by simp
next
  case (Cons pt rest)
  let ?n' = "if is_inlier model thr pt then n + 1 else n"
  show ?case
  proof (cases "?n' + int N - int p < B")
    case True
    with Cons.prems have False by (auto simp: Let_def)
    then show ?thesis ..
  next
    case False
    from Cons.prems have p: "Suc p + length rest = N" by simp
    from False Cons.prems(2)
    have "B \<le> snd (score_tail model thr B N (Suc p) rest ?n')"
      by (auto simp: Let_def split: prod.splits if_splits)
    from Cons.IH[OF p this] False show ?thesis
      by (auto simp: Let_def)
  qed
qed

lemma score_tail_no_bound:
  "p + length pts = N \<Longrightarrow> 0 \<le> n \<Longrightarrow> B \<le> 0 \<Longrightarrow>
   score_tail model thr B N p pts n =
     (map (is_inlier model thr) pts, n + int (length (filter (is_inlier model thr) pts)))"
  by (induction pts arbitrary: p n) (auto simp: Let_def)

lemma get_inliers_exhaustive_eq:
  "get_inliers model pts thr 0 =
     (map (is_inlier model thr) pts, int (length (filter (is_inlier model thr) pts)))"
proof -
  let ?cut = "length pts * 2 div 3"
  have le: "?cut \<le> length pts" by simp
  have t: "score_tail model thr 0 (length pts) ?cut (drop ?cut pts)
             (int (length (filter (is_inlier model thr) (take ?cut pts)))) =
           (map (is_inlier model thr) (drop ?cut pts),
            int (length (filter (is_inlier model thr) (take ?cut pts))) +
            int (length (filter (is_inlier model thr) (drop ?cut pts))))"
    by (rule score_tail_no_bound) (use le in auto)
  have "map (is_inlier model thr) (take ?cut pts) @ map (is_inlier model thr) (drop ?cut pts)
        = map (is_inlier model thr) pts"
    by (metis append_take_drop_id map_append)
  moreover have "length (filter (is_inlier model thr) (take ?cut pts)) +
                 length (filter (is_inlier model thr) (drop ?cut pts)) =
                 length (filter (is_inlier model thr) pts)"
    by (metis append_take_drop_id filter_append length_append)
  ultimately show ?thesis
    unfolding get_inliers_def Let_def score_head_eq using t by simp
qed

lemma get_inliers_pruned_eq:
  assumes "B \<le> snd (get_inliers model pts thr B)"
  shows "get_inliers model pts thr B = get_inliers model pts thr 0"
proof -
  let ?cut = "length pts * 2 div 3"
  let ?n1 = "int (length (filter (is_inlier model thr) (take ?cut pts)))"
  have le: "?cut \<le> length pts" by simp
  from assms have "B \<le> snd (score_tail model thr B (length pts) ?cut (drop ?cut pts) ?n1)"
    unfolding get_inliers_def Let_def score_head_eq by (simp split: prod.splits)
  then have t: "score_tail model thr B (length pts) ?cut (drop ?cut pts) ?n1 =
      (map (is_inlier model thr) (drop ?cut pts),
       ?n1 + int (length (filter (is_inlier model thr) (drop ?cut pts))))"
    by (intro score_tail_exhaustive) (use le in auto)
  have "map (is_inlier model thr) (take ?cut pts) @ map (is_inlier model thr) (drop ?cut pts)
        = map (is_inlier model thr) pts"
    by (metis append_take_drop_id map_append)
  moreover have "length (filter (is_inlier model thr) (take ?cut pts)) +
                 length (filter (is_inlier model thr) (drop ?cut pts)) =
                 length (filter (is_inlier model thr) pts)"
    by (metis append_take_drop_id filter_append length_append)
  ultimately show ?thesis
    unfolding get_inliers_exhaustive_eq unfolding get_inliers_def Let_def score_head_eq
    using t by simp
qed

lemma score_tail_not_pruned:
  "p + length pts = N \<Longrightarrow> B \<le> n + int (length (filter (is_inlier model thr) pts)) \<Longrightarrow>
   score_tail model thr B N p pts n =
     (map (is_inlier model thr) pts, n + int (length (filter (is_inlier model thr) pts)))"
proof (induction pts arbitrary: p n)
  case Nil
  then show ?case by simp
next
  case (Cons pt rest)
  let ?n' = "if is_inlier model thr pt then n + 1 else n"
  have le: "length (filter (is_inlier model thr) rest) \<le> length rest" by simp
  from Cons.prems have p: "Suc p + length rest = N" by simp
  from Cons.prems(2) have b: "B \<le> ?n' + int (length (filter (is_inlier model thr) rest))"
    by (auto split: if_splits)
  with le p have nb: "\<not> ?n' + int N - int p < B" by linarith
  from Cons.IH[OF p b] nb show ?case by (auto simp: Let_def)
qed

lemma get_inliers_not_pruned:
  assumes "B \<le> int (length (filter (is_inlier model thr) pts))"
  shows "get_inliers model pts thr B =
     (map (is_inlier model thr) pts, int (length (filter (is_inlier model thr) pts)))"
proof -
  let ?cut = "length pts * 2 div 3"
  let ?n1 = "int (length (filter (is_inlier model thr) (take ?cut pts)))"
  have le: "?cut \<le> length pts" by simp
  have m: "map (is_inlier model thr) (take ?cut pts) @ map (is_inlier model thr) (drop ?cut pts)
        = map (is_inlier model thr) pts"
    by (metis append_take_drop_id map_append)
  have c: "length (filter (is_inlier model thr) (take ?cut pts)) +
           length (filter (is_inlier model thr) (drop ?cut pts)) =
           length (filter (is_inlier model thr) pts)"
    by (metis append_take_drop_id filter_append length_append)
  have "score_tail model thr B (length pts) ?cut (drop ?cut pts) ?n1 =
      (map (is_inlier model thr) (drop ?cut pts),
       ?n1 + int (length (filter (is_inlier model thr) (drop ?cut pts))))"
    by (rule score_tail_not_pruned) (use le c assms in auto)
  with m c show ?thesis
    unfolding get_inliers_def Let_def score_head_eq by simp
qed

lemma get_inliers_length: "length (fst (get_inliers model pts thr B)) = length pts"
proof -
  let ?cut = "length pts * 2 div 3"
  have le: "?cut \<le> length pts" by simp
  show ?thesis
  proof (cases "score_tail model thr B (length pts) ?cut (drop ?cut pts)
                 (int (length (filter (is_inlier model thr) (take ?cut pts))))")
    case (Pair m2 n2)
    from score_tail_length_aux[OF Pair] have "length m2 = length pts - ?cut" by simp
    with Pair le show ?thesis
      unfolding get_inliers_def Let_def score_head_eq by simp
  qed
qed

lemma get_inliers_count:
  "snd (get_inliers model pts thr B) =
     int (length (filter (\<lambda>b. b) (fst (get_inliers model pts thr B))))"
proof -
  let ?cut = "length pts * 2 div 3"
  let ?n1 = "int (length (filter (is_inlier model thr) (take ?cut pts)))"
  have h: "length (filter (\<lambda>b. b) (map (is_inlier model thr) (take ?cut pts))) =
        length (filter (is_inlier model thr) (take ?cut pts))"
    by (simp add: filter_map comp_def)
  show ?thesis
  proof (cases "score_tail model thr B (length pts) ?cut (drop ?cut pts) ?n1")
    case (Pair m2 n2)
    from score_tail_count_aux[OF Pair] have "n2 = ?n1 + int (length (filter (\<lambda>b. b) m2))" .
    with Pair h show ?thesis
      unfolding get_inliers_def Let_def score_head_eq by simp
  qed
qed

lemma get_inliers_nonneg: "0 \<le> snd (get_inliers model pts thr B)"
  by (subst get_inliers_count) simp

lemma remove_inliers_length:
  "length inl = length xs \<Longrightarrow>
   length (remove_inliers xs inl) = length xs - length (filter (\<lambda>b. b) inl)"
  unfolding remove_inliers_def
proof (induction xs arbitrary: inl)
  case Nil
  then show ?case by simp
next
  case (Cons x xs)
  then obtain b bs where inl: "inl = b # bs" by (cases inl) auto
  with Cons.prems have "length bs = length xs" by simp
  from Cons.IH[OF this] have IH: "length (map fst (filter (\<lambda>(x, b). \<not> b) (zip xs bs))) =
     length xs - length (filter (\<lambda>b. b) bs)" .
  have "length (filter (\<lambda>b. b) bs) \<le> length xs"
    using \<open>length bs = length xs\<close> length_filter_le[of "\<lambda>b. b" bs] by simp
  with IH show ?case unfolding inl by (cases b) (auto simp: Suc_diff_le)
qed

text \<open>
  Claim C4.  Whenever the pruned scorer (\<open>best_inls = B\<close>) returns a count that is at
  least \<open>B\<close>, it returns the count and the mask of exhaustive scoring
  (\<open>best_inls = 0\<close>); and with \<open>best_inls = 0\<close> no early stop fires: every point is
  scored, the mask is the inlier test of every point and the count the number of
  inliers.
\<close>

theorem pruned_score_equals_exhaustive:
  "get_inliers model pts thr 0 =
     (map (is_inlier model thr) pts, int (length (filter (is_inlier model thr) pts))) \<and>
   (B \<le> snd (get_inliers model pts thr B) \<longrightarrow>
      get_inliers model pts thr B = get_inliers model pts thr 0)"
  using get_inliers_exhaustive_eq get_inliers_pruned_eq by blast

theorem pruned_score_equals_exhaustive_witness:
  "(3::int) \<le> snd (get_inliers (0, 0, 1, Some 0) [(0, 0, 0), (1, 0, 0), (0, 1, 0), (0, 0, 5)] 1 3) \<and>
   get_inliers (0, 0, 1, Some 0) [(0, 0, 0), (1, 0, 0), (0, 1, 0), (0, 0, 5)] 1 3 =
     get_inliers (0, 0, 1, Some 0) [(0, 0, 0), (1, 0, 0), (0, 1, 0), (0, 0, 5)] 1 0 \<and>
   get_inliers (0, 0, 1, Some 0) [(0, 0, 0), (1, 0, 0), (0, 1, 0), (0, 0, 5)] 1 0 =
     ([True, True, True, False], 3)"
proof -
  have h: "(3::int) \<le> snd (get_inliers (0, 0, 1, Some 0) [(0, 0, 0), (1, 0, 0), (0, 1, 0), (0, 0, 5)] 1 3)"
    by (simp add: get_inliers_def is_inlier_def Let_def)
  from pruned_score_equals_exhaustive[of "(0, 0, 1, Some 0)"
        "[(0, 0, 0), (1, 0, 0), (0, 1, 0), (0, 0, 5)]" 1 3] h
  show ?thesis by (simp add: is_inlier_def)
qed

section \<open>Facts about the floating-point operations\<close>

lemma rnd_at:
  assumes "2 powi e \<le> \<bar>x\<bar>" and "\<bar>x\<bar> < 2 powi (e + 1)" and "1 - emax \<le> e"
  shows "rnd (p, emax) x =
     (let q = 2 powi (e - int p + 1);
          r = of_int (round_half_even (x / q)) * q
      in if 2 powi (emax + 1) \<le> \<bar>r\<bar> then (if 0 < x then Pos_inf else Neg_inf) else Val r)"
proof -
  have pos: "0 < \<bar>x\<bar>" using assms(1) by (smt (verit) zero_less_power_int)
  then have nz: "x \<noteq> 0" by simp
  have a: "2 powr (real_of_int e + 1) = 2 powi (e + 1)"
    using powr_real_of_int'[of 2 "e + 1"] by simp
  have b: "2 powr (real_of_int e) = 2 powi e"
    using powr_real_of_int'[of 2 e] by simp
  have "\<lfloor>log 2 \<bar>x\<bar>\<rfloor> = e"
    using assms(1,2) pos
    by (subst floor_log_eq_powr_iff) (simp_all add: a b)
  then show ?thesis using nz assms(3) by (simp add: rnd_def Let_def max_def)
qed

lemma rnd_zero [simp]: "rnd fmt 0 = Val 0"
  by (cases fmt) (simp add: rnd_def)

lemma round_half_even_int [simp]: "round_half_even (of_int n) = n"
  by (simp add: round_half_even_def)

lemma round_half_even_minus: "round_half_even (- x) = - round_half_even x"
proof (cases "x \<in> \<int>")
  case True
  then obtain n where "x = of_int n" by (auto elim: Ints_cases)
  then have "round_half_even x = n" "round_half_even (- x) = - n"
    using round_half_even_int[of "- n"] by simp_all
  then show ?thesis by simp
next
  case False
  then have "x \<noteq> real_of_int \<lfloor>x\<rfloor>"
    by (metis Ints_of_int)
  then have f: "\<lfloor>- x\<rfloor> = - \<lfloor>x\<rfloor> - 1"
    by (simp add: floor_minus ceiling_altdef)
  show ?thesis
    unfolding round_half_even_def Let_def f by (auto simp: algebra_simps)
qed

lemma rnd_minus: "rnd fmt (- x) = fneg (rnd fmt x)"
  by (cases fmt) (simp add: rnd_def Let_def round_half_even_minus)

lemma log2_bounds:
  assumes "x \<noteq> 0"
  shows "2 powi \<lfloor>log 2 \<bar>x\<bar>\<rfloor> \<le> \<bar>x\<bar>" and "\<bar>x\<bar> < 2 powi (\<lfloor>log 2 \<bar>x\<bar>\<rfloor> + 1)"
proof -
  have pos: "0 < \<bar>x\<bar>" using assms by simp
  have a: "2 powr (real_of_int e + 1) = 2 powi (e + 1)" for e
    using powr_real_of_int'[of 2 "e + 1"] by simp
  have b: "2 powr (real_of_int e) = 2 powi e" for e
    using powr_real_of_int'[of 2 e] by simp
  have "\<lfloor>log 2 \<bar>x\<bar>\<rfloor> = \<lfloor>log 2 \<bar>x\<bar>\<rfloor>" ..
  then have "2 powr real_of_int \<lfloor>log 2 \<bar>x\<bar>\<rfloor> \<le> \<bar>x\<bar> \<and>
             \<bar>x\<bar> < 2 powr (real_of_int \<lfloor>log 2 \<bar>x\<bar>\<rfloor> + 1)"
    using pos by (subst (asm) floor_log_eq_powr_iff) simp_all
  then show "2 powi \<lfloor>log 2 \<bar>x\<bar>\<rfloor> \<le> \<bar>x\<bar>" and "\<bar>x\<bar> < 2 powi (\<lfloor>log 2 \<bar>x\<bar>\<rfloor> + 1)"
    unfolding a b by simp_all
qed

text \<open>
  A number \<open>m 2\<^bsup>k\<^esup>\<close> with \<open>|m| < 2\<^bsup>p\<^esup>\<close> and \<open>k\<close> in the range of the format is a value of
  the format: rounding leaves it as it is.
\<close>

lemma rnd_representable:
  assumes x: "x = of_int m * 2 powi k" and m: "\<bar>m\<bar> < 2 ^ p"
    and lo: "2 - emax - int p \<le> k" and hi: "k + int p \<le> emax + 1"
  shows "rnd (p, emax) x = Val x"
proof (cases "x = 0")
  case True
  then show ?thesis by (simp add: rnd_def)
next
  case False
  define e0 where "e0 = \<lfloor>log 2 \<bar>x\<bar>\<rfloor>"
  define e where "e = max e0 (1 - emax)"
  have "\<bar>x\<bar> = of_int \<bar>m\<bar> * 2 powi k" unfolding x by (simp add: abs_mult)
  also have "\<dots> < 2 ^ p * 2 powi k"
    using m by (intro mult_strict_right_mono)
      (simp_all add: of_int_less_iff[where 'a = real, symmetric] del: of_int_less_iff)
  also have "\<dots> = 2 powi (int p + k)" by (simp add: power_int_add)
  finally have ub: "\<bar>x\<bar> < 2 powi (int p + k)" .
  from log2_bounds(1)[OF False] ub have "(2::real) powi e0 < 2 powi (int p + k)"
    unfolding e0_def by simp
  then have "e0 < int p + k"
    using power_int_increasing[of "int p + k" e0 "2::real"] by (cases "e0 < int p + k") simp_all
  with lo have ek: "e - int p + 1 \<le> k" unfolding e_def by simp
  define j where "j = nat (k - (e - int p + 1))"
  have "x / 2 powi (e - int p + 1) = of_int m * 2 powi (k - (e - int p + 1))"
    unfolding x by (simp add: power_int_diff)
  also have "\<dots> = of_int (m * 2 ^ j)"
    using ek unfolding j_def by (simp add: power_int_def)
  finally have "round_half_even (x / 2 powi (e - int p + 1)) = m * 2 ^ j"
    by (simp only: round_half_even_int)
  moreover have "real_of_int (m * 2 ^ j) * 2 powi (e - int p + 1) = x"
  proof -
    have "real_of_int (m * 2 ^ j) * 2 powi (e - int p + 1)
          = real_of_int m * (2 powi (int j) * 2 powi (e - int p + 1))" by simp
    also have "2 powi (int j) * 2 powi (e - int p + 1) = (2::real) powi k"
      using ek unfolding j_def by (simp add: power_int_add[symmetric])
    finally show ?thesis unfolding x .
  qed
  moreover have "\<not> 2 powi (emax + 1) \<le> \<bar>x\<bar>"
  proof -
    have "(2::real) powi (int p + k) \<le> 2 powi (emax + 1)"
      using hi by (intro power_int_increasing) simp_all
    with ub show ?thesis by simp
  qed
  ultimately show ?thesis
    using False unfolding rnd_def e_def e0_def by (simp add: Let_def)
qed

lemma rnd32_int: "x \<in> \<int> \<Longrightarrow> \<bar>x\<bar> \<le> 16777216 \<Longrightarrow> rnd binary32 x = Val x"
proof -
  assume "x \<in> \<int>" and b: "\<bar>x\<bar> \<le> 16777216"
  then obtain m where x: "x = of_int m" by (auto elim: Ints_cases)
  show ?thesis
  proof (cases "\<bar>m\<bar> < 16777216")
    case True
    show ?thesis unfolding binary32_def
      by (rule rnd_representable[where m = m and k = 0]) (use True x in simp_all)
  next
    case False
    with b x have "\<bar>m\<bar> = 16777216" by simp
    then have "m = 2 * (m div 2)" "\<bar>m div 2\<bar> < 16777216" by presburger+
    then show ?thesis unfolding binary32_def x
      by (intro rnd_representable[where m = "m div 2" and k = 1]) simp_all
  qed
qed

lemma tolerance_value:
  "rnd binary64 (1 / 10000) = Val (7378697629483821 / 73786976294838206464)"
  by (simp add: binary64_def rnd_at[where e = "-14"] round_half_even_def Let_def)

lemma fadd_fneg: "fadd fmt (fneg a) (fneg b) = fneg (fadd fmt a b)"
  by (cases a; cases b) (simp_all add: rnd_minus[symmetric])

lemma fmul_fneg: "fmul fmt (fneg a) (fneg b) = fmul fmt a b"
  by (cases a; cases b) (auto simp: rnd_minus[symmetric])

section \<open>Properties of the normal constraint\<close>

text \<open>
  What holds of the test in the arithmetic of the program: the verdict on \<open>- n\<close> is the
  verdict on \<open>n\<close> (rounding is symmetric, and the dot product only enters squared).
\<close>

lemma check_same_normal_sign:
  "check_same_normal (- a, - b, - c, d') (e0, e1, e2) thr =
     check_same_normal (a, b, c, d) (e0, e1, e2) thr"
  by (simp add: check_same_normal_def Let_def rnd_minus fadd_fneg fmul_fneg)

text \<open>
  The verdict is that of the rounded quantities.  At tolerance 0 the normal
  \<open>(x, x, x)\<close> with \<open>x = 1 + 2\<^bsup>-23\<^esup>\<close>, parallel to the target \<open>(1, 1, 1)\<close>, is rejected:
  the \<open>float\<close> sum \<open>3 x\<close> and the \<open>float\<close> square \<open>x\<^sup>2\<close> are rounded, and the two sides
  of the difference no longer cancel.  And a normal whose squares overflow is rejected
  against itself, the difference of two infinities being not-a-number.
\<close>

lemma probe_roundings:
  "rnd binary32 (8388609 / 8388608) = Val (8388609 / 8388608)"
  "rnd binary32 (8388609 / 4194304) = Val (8388609 / 4194304)"
  "rnd binary32 (25165827 / 8388608) = Val (6291457 / 2097152)"
  "rnd binary32 (70368760954881 / 70368744177664) = Val (4194305 / 4194304)"
  "rnd binary32 (4194305 / 2097152) = Val (4194305 / 2097152)"
  "rnd binary32 (12582915 / 4194304) = Val (12582915 / 4194304)"
  "rnd binary64 (39582431182849 / 4398046511104) = Val (39582431182849 / 4398046511104)"
  "rnd binary64 (37748745 / 4194304) = Val (37748745 / 4194304)"
  "rnd binary64 (3145729 / 4398046511104) = Val (3145729 / 4398046511104)"
  "rnd binary64 (9895610941441 / 19342813113834066795298816)
     = Val (9895610941441 / 19342813113834066795298816)"
  "rnd binary32 10000000400817550870767646659478483369984 = Pos_inf"
  by (simp_all add: binary32_def binary64_def rnd_at[where e = 0] rnd_at[where e = 1]
        rnd_at[where e = 3] rnd_at[where e = "-21"] rnd_at[where e = "-41"]
        rnd_at[where e = 132] round_half_even_def Let_def)

lemma check_same_normal_rounds:
  "\<not> check_same_normal (8388609 / 8388608, 8388609 / 8388608, 8388609 / 8388608, Some 0)
       (1, 1, 1) 0"
  by (simp add: check_same_normal_def Let_def fsub_def rnd32_int probe_roundings rnd_minus)

lemma check_same_normal_overflows:
  "\<not> check_same_normal (100000002004087734272, 0, 0, Some 0) (100000002004087734272, 0, 0)
       (1/16)"
  by (simp add: check_same_normal_def Let_def fsub_def rnd32_int probe_roundings rnd_minus)

lemma dyadic_values:
  "rnd binary32 (1/64) = Val (1/64)"
  "rnd binary64 1 = Val 1"
  "rnd binary64 (1/16) = Val (1/16)"
  "rnd binary64 (1/64) = Val (1/64)"
  "rnd binary64 (1/1024) = Val (1/1024)"
  "rnd binary64 (1/4096) = Val (1/4096)"
  unfolding binary32_def binary64_def
  by (rule rnd_representable[where m = 1 and k = "-6"], simp_all)
     (rule rnd_representable[where m = 1 and k = "0"], simp_all,
      rule rnd_representable[where m = 1 and k = "-4"], simp_all,
      rule rnd_representable[where m = 1 and k = "-6"], simp_all,
      rule rnd_representable[where m = 1 and k = "-10"], simp_all,
      rule rnd_representable[where m = 1 and k = "-12"], simp_all)

text \<open>
  Claim C5 is not met by the program: the test is not invariant under a scaling of the
  normal.  With the tolerance \<open>1/16\<close> and the target normal \<open>(0, 1, 0)\<close> the orthogonal
  normal \<open>(1, 0, 0)\<close> is rejected, and its multiple \<open>(1/8, 0, 0)\<close> is accepted.  Every
  number that occurs is a power of two or 0, so that no operation rounds: the left side
  of the comparison scales with the fourth power of the factor and the right side with
  its square.
\<close>

theorem check_same_normal_not_scale_invariant:
  "\<not> check_same_normal (1, 0, 0, Some 0) (0, 1, 0) (1/16) \<and>
   check_same_normal (1/8 * 1, 1/8 * 0, 1/8 * 0, Some 0) (0, 1, 0) (1/16)"
  by (simp add: check_same_normal_def Let_def fsub_def rnd32_int dyadic_values rnd_minus)

section \<open>Properties of the plane estimator\<close>

text \<open>
  With exactly three samples the estimator fails when the collinearity test fires, when
  the decomposition reports an infinite component, or when its row is zero, and in no
  other case.
\<close>

lemma tls_three_None:
  "total_least_squares_plane_estimate eigen input [i, j, k] = None \<longleftrightarrow>
     three_points_collinear (input ! i) (input ! j) (input ! k) \<or>
     eigen (scatter_matrix input [i, j, k]) = Row_inf \<or>
     eigen (scatter_matrix input [i, j, k]) = Row 0 0 0"
  by (auto simp: total_least_squares_plane_estimate_def Let_def
           split: prod.splits eigen_row.splits)

lemma rounded_products:
  "rnd binary32 17064675 = Val 17064676"
  "rnd binary32 32355903650625 = Val 32355903340544"
  "rnd binary32 32355905546700 = Val 32355905437696"
  "rnd binary32 100000000 = Val 100000000"
  "rnd binary32 200000000 = Val 200000000"
  "rnd binary32 400000000 = Val 400000000"
  "rnd binary32 400000001 = Val 400000000"
  "rnd binary32 40000000000000000 = Val 40000001090256896"
  by (simp_all add: binary32_def rnd_at[where e = 24] rnd_at[where e = 44] rnd_at[where e = 26]
        rnd_at[where e = 27] rnd_at[where e = 28] rnd_at[where e = 55] round_half_even_def Let_def)

lemma line795_not_rejected:
  "\<not> three_points_collinear (0, 0, 0) (795, 795, 795) (2385, 2385, 2385)"
  by (simp add: three_points_collinear_def vec3f_dot_def fsub_def Let_def rnd32_int
        rounded_products tolerance_value)

lemma long_triangle_rejected:
  "three_points_collinear (0, 0, 0) (10000, 0, 0) (20000, 1, 0)"
  by (simp add: three_points_collinear_def vec3f_dot_def fsub_def Let_def rnd32_int
        rounded_products tolerance_value)

text \<open>
  Claim C7 is not met by the program.  The three points \<open>(0, 0, 0)\<close>,
  \<open>(795, 795, 795)\<close> and \<open>(2385, 2385, 2385)\<close> lie on one line: the cross product of
  their edges is exactly zero.  In \<open>float\<close> arithmetic \<open>ca \<cdot> ca = 17064675\<close> is rounded
  to \<open>17064676\<close>, and the two products of the test, both near \<open>3.2 10\<^sup>13\<close>, are rounded
  to neighbouring multiples of \<open>2\<^sup>21\<close>: their difference is \<open>2097152\<close>, not below
  \<open>0.0001\<close>.  The test does not fire: the fit fails only if the decomposition does,
  and with the eigenvector \<open>(1, -1, 0)\<close> of the scatter matrix (all of whose entries are
  equal) the estimator returns the plane \<open>x - y = 0\<close>.  (The centroid, the scatter
  matrix and the offset of this sample are integers below \<open>2\<^sup>24\<close>, which \<open>float\<close>
  arithmetic computes exactly.)  In the other direction the triangle \<open>(0, 0, 0)\<close>,
  \<open>(10000, 0, 0)\<close>, \<open>(20000, 1, 0)\<close>, whose cross product has length \<open>10000\<close>, is
  rejected as collinear whatever the decomposition returns: \<open>ca \<cdot> ca = 400000001\<close> is
  rounded to \<open>400000000\<close> and the difference of the two products is 0.
\<close>

theorem collinear_triple_is_fitted:
  "cross3 (edge (0, 0, 0) (795, 795, 795)) (edge (0, 0, 0) (2385, 2385, 2385)) = (0, 0, 0) \<and>
   \<not> three_points_collinear (0, 0, 0) (795, 795, 795) (2385, 2385, 2385) \<and>
   (total_least_squares_plane_estimate eigen line795 [0, 1, 2] = None \<longleftrightarrow>
      eigen (scatter_matrix line795 [0, 1, 2]) = Row_inf \<or>
      eigen (scatter_matrix line795 [0, 1, 2]) = Row 0 0 0) \<and>
   scatter_matrix line795 [0, 1, 2] =
     [[2949450, 2949450, 2949450], [2949450, 2949450, 2949450], [2949450, 2949450, 2949450]] \<and>
   total_least_squares_plane_estimate (\<lambda>m. Row 1 (- 1) 0) line795 [0, 1, 2] =
     Some (1, - 1, 0, Some 0) \<and>
   cross3 (edge (0, 0, 0) (10000, 0, 0)) (edge (0, 0, 0) (20000, 1, 0)) = (0, 0, 10000) \<and>
   total_least_squares_plane_estimate eigen [(0, 0, 0), (10000, 0, 0), (20000, 1, 0)] [0, 1, 2] =
     None"
proof -
  have a: "cross3 (edge (0, 0, 0) (795, 795, 795)) (edge (0, 0, 0) (2385, 2385, 2385)) = (0, 0, 0)"
    and b: "cross3 (edge (0, 0, 0) (10000, 0, 0)) (edge (0, 0, 0) (20000, 1, 0)) = (0, 0, 10000)"
    by (simp_all add: cross3_def edge_def)
  have s: "scatter_matrix line795 [0, 1, 2] =
     [[2949450, 2949450, 2949450], [2949450, 2949450, 2949450], [2949450, 2949450, 2949450]]"
    by (simp add: scatter_matrix_def sample_mean_def)
  have f: "total_least_squares_plane_estimate (\<lambda>m. Row 1 (- 1) 0) line795 [0, 1, 2] =
     Some (1, - 1, 0, Some 0)"
    by (simp add: total_least_squares_plane_estimate_def sample_mean_def line795_not_rejected)
  have r: "total_least_squares_plane_estimate eigen [(0, 0, 0), (10000, 0, 0), (20000, 1, 0)]
             [0, 1, 2] = None"
    unfolding tls_three_None using long_triangle_rejected by simp
  have i: "total_least_squares_plane_estimate eigen line795 [0, 1, 2] = None \<longleftrightarrow>
      eigen (scatter_matrix line795 [0, 1, 2]) = Row_inf \<or>
      eigen (scatter_matrix line795 [0, 1, 2]) = Row 0 0 0"
    unfolding tls_three_None using line795_not_rejected by simp
  from a line795_not_rejected i s f b r show ?thesis by blast
qed

section \<open>Facts about the search loops\<close>

subsection \<open>Local optimization\<close>

lemma local_optimization_iter:
  "iter (local_optimization E pts thr normal ndt k rounds st) = iter st"
  by (induction rounds arbitrary: st)
     (auto simp: local_optimization.simps Let_def split: prod.splits option.splits)

lemma local_optimization_max_iterations:
  "max_iterations (local_optimization E pts thr normal ndt k rounds st) = max_iterations st"
  by (induction rounds arbitrary: st)
     (auto simp: local_optimization.simps Let_def split: prod.splits option.splits)

lemma local_optimization_best_mono:
  "best_inls st \<le> best_inls (local_optimization E pts thr normal ndt k rounds st)"
proof (induction rounds arbitrary: st)
  case 0
  then show ?case by (simp add: local_optimization.simps)
next
  case (Suc rounds)
  show ?case
    by (auto simp: local_optimization.simps Let_def split: prod.splits option.splits
             intro!: order_trans[OF _ Suc.IH])
qed

lemma local_optimization_best_dest:
  "best_inls (local_optimization E pts thr normal ndt k rounds s) = b \<Longrightarrow> best_inls s \<le> b"
  using local_optimization_best_mono[of s E pts thr normal ndt k rounds] by simp

lemma local_optimization_num_le_best:
  "num_inliers st \<le> best_inls st \<Longrightarrow>
   num_inliers (local_optimization E pts thr normal ndt k rounds st)
     \<le> best_inls (local_optimization E pts thr normal ndt k rounds st)"
proof (induction rounds arbitrary: st)
  case 0
  then show ?case by simp
next
  case (Suc rounds)
  from Suc.prems show ?case
    by (auto simp: local_optimization.simps Let_def split: prod.splits option.splits
             intro!: Suc.IH)
qed

lemma ten_rounds: "(10::nat) = Suc 9"
  by simp

lemma three_rounds: "(3::nat) = Suc 2"
  by simp

lemma local_optimization_round_fails:
  assumes "randShuffle E (shuffle_rng st) (random_pool st) = (pool, g)"
    and "estimate E pts (collect_inlier_sample k (inliers st) pool []) = None"
  shows "local_optimization E pts thr normal ndt k (Suc rounds) st =
         local_optimization E pts thr normal ndt k rounds
           (st\<lparr>random_pool := pool, shuffle_rng := g\<rparr>)"
  using assms by (simp add: local_optimization.simps Let_def)

lemma local_optimization_round_ties:
  assumes "randShuffle E (shuffle_rng st) (random_pool st) = (pool, g)"
    and "estimate E pts (collect_inlier_sample k (inliers st) pool []) = Some lo_model"
    and "\<not> normal_rejects normal lo_model ndt"
    and "get_inliers lo_model pts thr (best_inls st) = (m, best_inls st)"
  shows "local_optimization E pts thr normal ndt k (Suc rounds) st =
         st\<lparr>random_pool := pool, shuffle_rng := g, inliers := m, num_inliers := best_inls st\<rparr>"
  using assms by (simp add: local_optimization.simps Let_def)

lemma collect_inlier_sample_length:
  "0 < k \<Longrightarrow> length acc < k \<Longrightarrow> length (collect_inlier_sample k inl pool acc) \<le> k"
  by (induction pool arbitrary: acc) (auto simp: Let_def)

subsection \<open>The iteration of \<open>get_plane\<close>\<close>

lemma static_cast_int_le: "r < real_of_int b \<Longrightarrow> static_cast_int r \<le> b"
  unfolding static_cast_int_def by (auto simp: floor_le_iff ceiling_le_iff)

lemma shrink_budget_le: "shrink_budget h b \<le> b"
  unfolding shrink_budget_def by (auto split: double.splits intro: static_cast_int_le)

lemma shrink_budget_changes:
  "shrink_budget h budget \<noteq> budget \<Longrightarrow>
   \<exists>r. h = Finite r \<and> r < real_of_int budget \<and> shrink_budget h budget = static_cast_int r"
  unfolding shrink_budget_def by (auto split: double.splits if_splits)

lemma max_hyp_formula:
  assumes "0 < b" and "b < int N"
  shows "max_hyp b N = Finite (3 * ln (1 - 0.95) / ln (1 - (real_of_int b / real N) ^ 3))"
proof -
  let ?q = "real_of_int b / real N"
  have q: "0 < ?q" "?q < 1" using assms by (simp_all add: field_simps)
  then have "0 < ?q ^ 3" "?q ^ 3 < 1"
    by (simp_all add: power_less_one_iff)
  then have p: "0 < 1 - ?q ^ 3" "1 - ?q ^ 3 < 1" by simp_all
  then have "ln (1 - ?q ^ 3) < 0" by simp
  then have c3: "ln (1 - ?q ^ 3) \<noteq> 0" by simp
  from p have c1: "1 - ?q ^ 3 \<noteq> 0" and c2: "\<not> 1 - ?q ^ 3 < 0" by simp_all
  show ?thesis
    unfolding max_hyp_def Let_def using c1 c2 c3 by (simp only: if_False)
qed

lemma ransac_iteration_iter: "iter (ransac_iteration E pts thr normal ndt st) = iter st"
  unfolding ransac_iteration_def
  by (auto simp: Let_def local_optimization_iter split: prod.splits option.splits)

lemma ransac_iteration_budget:
  "max_iterations (ransac_iteration E pts thr normal ndt st) \<le> max_iterations st"
  unfolding ransac_iteration_def
  by (auto simp: Let_def local_optimization_max_iterations shrink_budget_le
           split: prod.splits option.splits)

lemma ransac_iteration_adopts:
  "best_inls (ransac_iteration E pts thr normal ndt st) \<noteq> best_inls st \<Longrightarrow>
   max_iterations (ransac_iteration E pts thr normal ndt st) =
     shrink_budget (max_hyp (best_inls (ransac_iteration E pts thr normal ndt st)) (length pts))
       (max_iterations st)"
  unfolding ransac_iteration_def
  by (auto simp: Let_def local_optimization_max_iterations split: prod.splits option.splits if_splits)

lemma ransac_iteration_keeps:
  "best_inls (ransac_iteration E pts thr normal ndt st) = best_inls st \<Longrightarrow>
   max_iterations (ransac_iteration E pts thr normal ndt st) = max_iterations st"
  unfolding ransac_iteration_def
  by (auto simp: Let_def local_optimization_max_iterations
           split: prod.splits option.splits if_splits dest!: local_optimization_best_dest)

lemma ransac_loop_budget:
  "max_iterations (ransac_loop E pts thr normal ndt st) \<le> max_iterations st"
proof (induction E pts thr normal ndt st rule: ransac_loop.induct)
  case (1 E pts thr normal ndt st)
  show ?case
  proof (cases "iter st < max_iterations st")
    case True
    let ?st' = "ransac_iteration E pts thr normal ndt st"
    from "1.IH"[OF True refl]
    have "max_iterations (ransac_loop E pts thr normal ndt (?st'\<lparr>iter := iter ?st' + 1\<rparr>))
            \<le> max_iterations ?st'" by simp
    also have "\<dots> \<le> max_iterations st" by (rule ransac_iteration_budget)
    finally show ?thesis using True by (subst ransac_loop.simps) (simp add: Let_def)
  next
    case False
    then show ?thesis by (subst ransac_loop.simps) simp
  qed
qed

lemma ransac_loop_once:
  assumes "iter st < max_iterations st" and "max_iterations st \<le> iter st + 1"
  shows "ransac_loop E pts thr normal ndt st =
           (ransac_iteration E pts thr normal ndt st)\<lparr>iter := iter st + 1\<rparr>"
proof -
  let ?st' = "ransac_iteration E pts thr normal ndt st"
  have "max_iterations ?st' \<le> iter st + 1"
    using ransac_iteration_budget[of E pts thr normal ndt st] assms(2) by simp
  then have "ransac_loop E pts thr normal ndt (?st'\<lparr>iter := iter ?st' + 1\<rparr>)
             = ?st'\<lparr>iter := iter ?st' + 1\<rparr>"
    by (subst ransac_loop.simps) (simp add: ransac_iteration_iter)
  with assms(1) show ?thesis
    by (subst ransac_loop.simps) (simp add: Let_def ransac_iteration_iter)
qed

lemma ransac_iteration_adopting:
  assumes "uniform E (rng st) (length pts) = (ia, ra)"
    and "uniform E ra (length pts) = (ib, rb)"
    and "uniform E rb (length pts) = (ic, rc)"
    and "estimate E pts [ia, ib, ic] = Some model"
    and "\<not> normal_rejects normal model ndt"
    and "get_inliers model pts thr (best_inls st) = (m, n)"
    and "best_inls st < n"
    and "local_optimization E pts thr normal ndt 20 10
           (st\<lparr>rng := rc, inliers := m, num_inliers := n, best_model := model, best_inls := n\<rparr>)
         = stl"
  shows "ransac_iteration E pts thr normal ndt st =
         stl\<lparr>max_iterations :=
               shrink_budget (max_hyp (best_inls stl) (length pts)) (max_iterations stl)\<rparr>"
  using assms unfolding ransac_iteration_def
  by (simp add: Let_def)

lemma ransac_iteration_adopt_tie:
  assumes "uniform E (rng st) (length pts) = (ia, ra)"
    and "uniform E ra (length pts) = (ib, rb)"
    and "uniform E rb (length pts) = (ic, rc)"
    and "estimate E pts [ia, ib, ic] = Some model"
    and "\<not> normal_rejects normal model ndt"
    and "get_inliers model pts thr (best_inls st) = (m, n)"
    and "best_inls st < n"
    and "randShuffle E (shuffle_rng st) (random_pool st) = (pool, g')"
    and "estimate E pts (collect_inlier_sample 20 m pool []) = Some lo_model"
    and "\<not> normal_rejects normal lo_model ndt"
    and "get_inliers lo_model pts thr n = (m', n)"
  shows "ransac_iteration E pts thr normal ndt st =
         st\<lparr>rng := rc, inliers := m', num_inliers := n, best_model := model, best_inls := n,
             random_pool := pool, shuffle_rng := g',
             max_iterations := shrink_budget (max_hyp n (length pts)) (max_iterations st)\<rparr>"
proof -
  let ?s1 = "st\<lparr>rng := rc, inliers := m, num_inliers := n, best_model := model, best_inls := n\<rparr>"
  let ?s2 = "?s1\<lparr>random_pool := pool, shuffle_rng := g', inliers := m', num_inliers := best_inls ?s1\<rparr>"
  have lo: "local_optimization E pts thr normal ndt 20 10 ?s1 = ?s2"
    unfolding ten_rounds
    by (rule local_optimization_round_ties[where lo_model = lo_model]) (use assms in simp_all)
  have "ransac_iteration E pts thr normal ndt st =
        ?s2\<lparr>max_iterations := shrink_budget (max_hyp (best_inls ?s2) (length pts)) (max_iterations ?s2)\<rparr>"
    by (rule ransac_iteration_adopting[where model = model and m = m and n = n, OF _ _ _ _ _ _ _ lo])
       (use assms in simp_all)
  then show ?thesis by simp
qed

lemma cv_env_fields [simp]:
  "estimate (cv_env e r u s) = total_least_squares_plane_estimate e"
  "rng_default (cv_env e r u s) = r"
  "uniform (cv_env e r u s) = u"
  "randShuffle (cv_env e r u s) = s"
  by (simp_all add: cv_env_def)

lemma get_plane_one_hypothesis:
  assumes "3 \<le> length pts"
    and "uniform E (rng_default E) (length pts) = (ia, ra)"
    and "uniform E ra (length pts) = (ib, rb)"
    and "uniform E rb (length pts) = (ic, rc)"
    and "estimate E pts [ia, ib, ic] = Some model"
    and "\<not> normal_rejects normal model ndt"
    and "get_inliers model pts thr 0 = (m, n)"
    and "0 < n"
    and "randShuffle E g [0..<length pts] = (pool, g')"
    and "estimate E pts (collect_inlier_sample 20 m pool []) = Some lo_model"
    and "\<not> normal_rejects normal lo_model ndt"
    and "get_inliers lo_model pts thr n = (m', n)"
    and "get_inliers model pts thr default_best_inls = (mf, nf)"
  shows "get_plane E bm inl pts thr 1 normal ndt g = (nf, model, mf, g')"
proof -
  let ?s0 = "\<lparr>best_model = bm, best_inls = 0, num_inliers = 0, inliers = inl,
              random_pool = [0..<length pts], shuffle_rng = g,
              iter = 0, max_iterations = 1, rng = rng_default E\<rparr>"
  let ?s1 = "?s0\<lparr>rng := rc, inliers := m, num_inliers := n, best_model := model, best_inls := n\<rparr>"
  let ?s2 = "?s1\<lparr>random_pool := pool, shuffle_rng := g', inliers := m', num_inliers := best_inls ?s1\<rparr>"
  have lo: "local_optimization E pts thr normal ndt 20 10 ?s1 = ?s2"
    unfolding ten_rounds
    by (rule local_optimization_round_ties[where lo_model = lo_model]) (use assms in simp_all)
  have it: "ransac_iteration E pts thr normal ndt ?s0 =
        ?s2\<lparr>max_iterations := shrink_budget (max_hyp (best_inls ?s2) (length pts)) (max_iterations ?s2)\<rparr>"
    by (rule ransac_iteration_adopting[where model = model and m = m and n = n, OF _ _ _ _ _ _ _ lo])
       (use assms in simp_all)
  have loop: "ransac_loop E pts thr normal ndt ?s0 =
        (ransac_iteration E pts thr normal ndt ?s0)\<lparr>iter := iter ?s0 + 1\<rparr>"
    by (rule ransac_loop_once) simp_all
  show ?thesis
    unfolding get_plane_def Let_def loop it using assms(1,8,13) by simp
qed

subsection \<open>The refinement of a candidate\<close>

lemma refine_candidate_result:
  assumes "refine_candidate E thr normal ndt cand pts g = (best, cnt, inl, g')"
  shows "inl = map (is_inlier best thr) pts"
    and "cnt = int (length (filter (is_inlier best thr) pts))"
proof -
  obtain m0 n0 where s0: "get_inliers cand pts thr default_best_inls = (m0, n0)"
    by (cases "get_inliers cand pts thr default_best_inls") auto
  define lo where "lo = local_optimization E pts thr normal ndt
                     phase_b_max_lo_inliers phase_b_max_lo_iters
                     \<lparr>best_model = cand, best_inls = n0, num_inliers = 0, inliers = m0,
                      random_pool = [0..<length pts], shuffle_rng = g\<rparr>"
  have "0 \<le> n0" using get_inliers_nonneg[of cand pts thr default_best_inls] s0 by simp
  then have "num_inliers lo \<le> best_inls lo"
    unfolding lo_def by (intro local_optimization_num_le_best) simp
  moreover have "refine_candidate E thr normal ndt cand pts g =
      (if best_inls lo \<ge> num_inliers lo
       then (case get_inliers (best_model lo) pts thr 0 of
               (m, n) \<Rightarrow> (best_model lo, n, m, shuffle_rng lo))
       else (best_model lo, best_inls lo, inliers lo, shuffle_rng lo))"
    unfolding refine_candidate_def lo_def Let_def s0 default_best_inls_def[symmetric] by simp
  ultimately have "(best, cnt, inl, g') =
      (case get_inliers (best_model lo) pts thr 0 of (m, n) \<Rightarrow> (best_model lo, n, m, shuffle_rng lo))"
    using assms by simp
  then show "inl = map (is_inlier best thr) pts"
    and "cnt = int (length (filter (is_inlier best thr) pts))"
    unfolding get_inliers_exhaustive_eq by simp_all
qed

lemma refine_candidate_first_round_ties:
  assumes "get_inliers cand pts thr default_best_inls = (m, n)"
    and "randShuffle E g [0..<length pts] = (pool, g')"
    and "estimate E pts (collect_inlier_sample phase_b_max_lo_inliers m pool []) = Some lo_model"
    and "\<not> normal_rejects normal lo_model ndt"
    and "get_inliers lo_model pts thr n = (m', n)"
  shows "refine_candidate E thr normal ndt cand pts g = (cand, n, m, g')"
proof -
  let ?s1 = "\<lparr>best_model = cand, best_inls = n, num_inliers = 0, inliers = m,
              random_pool = [0..<length pts], shuffle_rng = g\<rparr>"
  let ?s2 = "?s1\<lparr>random_pool := pool, shuffle_rng := g', inliers := m', num_inliers := best_inls ?s1\<rparr>"
  have lo: "local_optimization E pts thr normal ndt phase_b_max_lo_inliers phase_b_max_lo_iters ?s1
            = ?s2"
    unfolding phase_b_max_lo_iters_def three_rounds
    by (rule local_optimization_round_ties[where lo_model = lo_model]) (use assms in simp_all)
  show ?thesis
    unfolding refine_candidate_def assms(1) prod.case Let_def lo using assms(1) by simp
qed

lemma refine_candidate_all_rounds_fail:
  assumes "get_inliers cand pts thr default_best_inls = (m, n)"
    and "randShuffle E g [0..<length pts] = (pa, ga)"
    and "estimate E pts (collect_inlier_sample phase_b_max_lo_inliers m pa []) = None"
    and "randShuffle E ga pa = (pb, gb)"
    and "estimate E pts (collect_inlier_sample phase_b_max_lo_inliers m pb []) = None"
    and "randShuffle E gb pb = (pc, gc)"
    and "estimate E pts (collect_inlier_sample phase_b_max_lo_inliers m pc []) = None"
  shows "refine_candidate E thr normal ndt cand pts g = (cand, n, m, gc)"
proof -
  let ?s0 = "\<lparr>best_model = cand, best_inls = n, num_inliers = 0, inliers = m,
              random_pool = [0..<length pts], shuffle_rng = g\<rparr>"
  have n: "0 \<le> n" using get_inliers_nonneg[of cand pts thr default_best_inls] assms(1) by simp
  have "local_optimization E pts thr normal ndt phase_b_max_lo_inliers (Suc (Suc (Suc 0))) ?s0
        = ?s0\<lparr>random_pool := pc, shuffle_rng := gc\<rparr>"
    using assms
    by (simp add: local_optimization_round_fails[where pool = pa and g = ga]
          local_optimization_round_fails[where pool = pb and g = gb]
          local_optimization_round_fails[where pool = pc and g = gc])
  then show ?thesis
    unfolding refine_candidate_def assms(1) prod.case Let_def phase_b_max_lo_iters_def
    using assms(1) n by (simp add: eval_nat_numeral)
qed

section \<open>Runs of the program on concrete inputs\<close>

lemmas demo_eval =
  normal_rejects_def default_best_inls_def get_inliers_not_pruned is_inlier_def
  total_least_squares_plane_estimate_def three_points_collinear_def vec3f_dot_def fsub_def
  rnd32_int tolerance_value sample_mean_def phase_b_max_lo_inliers_def

lemma demo_get_plane_low:
  "get_plane demo_env bm inl demo7 1 1 None 0 g
   = (3, plane_low, [True, True, True, False, False, False, False], g)"
  by (rule get_plane_one_hypothesis[where ia = 0 and ib = 1 and ic = 2 and ra = 1 and rb = 2
        and rc = 3 and model = plane_low and n = 3 and lo_model = plane_low
        and pool = "[0..<length demo7]"
        and m = "[True, True, True, False, False, False, False]"
        and m' = "[True, True, True, False, False, False, False]"])
     (simp_all add: demo_eval)

lemma demo_get_plane_high:
  "get_plane demo_env bm inl high4 1 1 None 0 g = (4, plane_high, [True, True, True, True], g)"
  by (rule get_plane_one_hypothesis[where ia = 0 and ib = 1 and ic = 2 and ra = 1 and rb = 2
        and rc = 3 and model = plane_high and n = 4 and lo_model = plane_high
        and pool = "[0..<length high4]"
        and m = "[True, True, True, True]" and m' = "[True, True, True, True]"])
     (simp_all add: demo_eval)

lemma demo_phase_a:
  "phase_a demo_env 1 1 None 0 (nat 2) demo7 inl g = ([plane_low, plane_high], g)"
  by (simp add: eval_nat_numeral demo_get_plane_low demo_get_plane_high remove_inliers_def)

lemma demo_refine_low:
  "refine_candidate demo_env 1 None 0 plane_low demo7 g
   = (plane_low, 3, [True, True, True, False, False, False, False], g)"
  by (rule refine_candidate_first_round_ties[where lo_model = plane_low
        and pool = "[0..<length demo7]"
        and m' = "[True, True, True, False, False, False, False]"])
     (simp_all add: demo_eval)

lemma demo_refine_high:
  "refine_candidate demo_env 1 None 0 plane_high high4 g
   = (plane_high, 4, [True, True, True, True], g)"
  by (rule refine_candidate_first_round_ties[where lo_model = plane_high
        and pool = "[0..<length high4]" and m' = "[True, True, True, True]"])
     (simp_all add: demo_eval)

lemma demo_phase_b:
  "phase_b demo_env 1 None 0 [plane_low, plane_high] demo7 [] g =
     \<lparr>points3d = high4, orig_pts_idx = [3, 4, 5, 6], labels = [1, 1, 1, 2, 2, 2, 2],
      planes = [plane_high, plane_low], plane_inls_num = [4, 3, 0], the_rng = g\<rparr>"
  by (simp add: phase_b_def phase_b_rounds_def phase_b_init_def phase_b_round_def
        demo_refine_low demo_refine_high insert_at_def remove_inliers_def upt_conv_Cons
        eval_nat_numeral)

lemma demo_phase_b_first_round:
  "phase_b_rounds demo_env 1 None 0 [plane_low, plane_high] 1 (phase_b_init demo7 [] g) =
     \<lparr>points3d = high4, orig_pts_idx = [3, 4, 5, 6], labels = [1, 1, 1, 0, 0, 0, 0],
      planes = [plane_low], plane_inls_num = [3, 0], the_rng = g\<rparr>"
  by (simp add: phase_b_rounds_def phase_b_init_def phase_b_round_def
        demo_refine_low insert_at_def remove_inliers_def upt_conv_Cons eval_nat_numeral)

lemma demo_phase_b_second_round:
  "phase_b_rounds demo_env 1 None 0 [plane_low, plane_high] (Suc 1) (phase_b_init demo7 [] g) =
     \<lparr>points3d = high4, orig_pts_idx = [3, 4, 5, 6], labels = [1, 1, 1, 2, 2, 2, 2],
      planes = [plane_high, plane_low], plane_inls_num = [4, 3, 0], the_rng = g\<rparr>"
  using demo_phase_b[of g] by (simp add: phase_b_def eval_nat_numeral)

lemma demo_iteration_high:
  "ransac_iteration demo_env high4 1 None 0
     \<lparr>best_model = (0, 0, 0, Some 0), best_inls = 0, num_inliers = 0,
      inliers = [False, False, False, False], random_pool = [0..<length high4], shuffle_rng = 0,
      iter = 0, max_iterations = 100, rng = 0\<rparr>
   = \<lparr>best_model = plane_high, best_inls = 4, num_inliers = 4,
      inliers = [True, True, True, True], random_pool = [0..<length high4], shuffle_rng = 0,
      iter = 0, max_iterations = shrink_budget (max_hyp 4 (length high4)) 100, rng = 3\<rparr>"
  by (subst ransac_iteration_adopt_tie[where ia = 0 and ib = 1 and ic = 2 and ra = 1 and rb = 2
        and rc = 3 and model = plane_high and n = 4 and lo_model = plane_high
        and pool = "[0..<length high4]" and g' = 0
        and m = "[True, True, True, True]" and m' = "[True, True, True, True]"])
     (simp_all add: demo_eval)

lemma tie6_get_plane_low:
  "get_plane demo_env bm inl tie6 1 1 None 0 g
   = (3, plane_low, [True, True, True, False, False, False], g)"
  by (rule get_plane_one_hypothesis[where ia = 0 and ib = 1 and ic = 2 and ra = 1 and rb = 2
        and rc = 3 and model = plane_low and n = 3 and lo_model = plane_low
        and pool = "[0..<length tie6]"
        and m = "[True, True, True, False, False, False]"
        and m' = "[True, True, True, False, False, False]"])
     (simp_all add: demo_eval)

lemma high3_get_plane:
  "get_plane demo_env bm inl high3 1 1 None 0 g = (3, plane_high, [True, True, True], g)"
  by (rule get_plane_one_hypothesis[where ia = 0 and ib = 1 and ic = 2 and ra = 1 and rb = 2
        and rc = 3 and model = plane_high and n = 3 and lo_model = plane_high
        and pool = "[0..<length high3]"
        and m = "[True, True, True]" and m' = "[True, True, True]"])
     (simp_all add: demo_eval)

lemma tie6_phase_a:
  "phase_a demo_env 1 1 None 0 (nat 2) tie6 inl g = ([plane_low, plane_high], g)"
  by (simp add: eval_nat_numeral tie6_get_plane_low high3_get_plane remove_inliers_def)

lemma tie6_refine_low:
  "refine_candidate demo_env 1 None 0 plane_low tie6 g
   = (plane_low, 3, [True, True, True, False, False, False], g)"
  by (rule refine_candidate_first_round_ties[where lo_model = plane_low
        and pool = "[0..<length tie6]"
        and m' = "[True, True, True, False, False, False]"])
     (simp_all add: demo_eval)

lemma high3_refine:
  "refine_candidate demo_env 1 None 0 plane_high high3 g
   = (plane_high, 3, [True, True, True], g)"
  by (rule refine_candidate_first_round_ties[where lo_model = plane_high
        and pool = "[0..<length high3]" and m' = "[True, True, True]"])
     (simp_all add: demo_eval)

lemma tie6_phase_b_first_round:
  "phase_b_rounds demo_env 1 None 0 [plane_low, plane_high] 1 (phase_b_init tie6 [] g) =
     \<lparr>points3d = high3, orig_pts_idx = [3, 4, 5], labels = [1, 1, 1, 0, 0, 0],
      planes = [plane_low], plane_inls_num = [3, 0], the_rng = g\<rparr>"
  by (simp add: phase_b_rounds_def phase_b_init_def phase_b_round_def
        tie6_refine_low insert_at_def remove_inliers_def upt_conv_Cons eval_nat_numeral)

lemma tie6_phase_b:
  "phase_b demo_env 1 None 0 [plane_low, plane_high] tie6 [] g =
     \<lparr>points3d = high3, orig_pts_idx = [3, 4, 5], labels = [1, 1, 1, 2, 2, 2],
      planes = [plane_high, plane_low], plane_inls_num = [3, 3, 0], the_rng = g\<rparr>"
  by (simp add: phase_b_def phase_b_rounds_def phase_b_init_def phase_b_round_def
        tie6_refine_low high3_refine insert_at_def remove_inliers_def upt_conv_Cons
        eval_nat_numeral)


section \<open>Counts, masks and compaction\<close>

lemma ransac_iteration_num_le_best:
  "num_inliers st \<le> best_inls st \<Longrightarrow>
   num_inliers (ransac_iteration E pts thr normal ndt st)
     \<le> best_inls (ransac_iteration E pts thr normal ndt st)"
  unfolding ransac_iteration_def
  by (auto simp: Let_def split: prod.splits option.splits
           intro!: local_optimization_num_le_best)

lemma ransac_loop_num_le_best:
  "num_inliers st \<le> best_inls st \<Longrightarrow>
   num_inliers (ransac_loop E pts thr normal ndt st)
     \<le> best_inls (ransac_loop E pts thr normal ndt st)"
proof (induction E pts thr normal ndt st rule: ransac_loop.induct)
  case (1 E pts thr normal ndt st)
  show ?case
  proof (cases "iter st < max_iterations st")
    case True
    let ?st' = "ransac_iteration E pts thr normal ndt st"
    have "num_inliers (?st'\<lparr>iter := iter ?st' + 1\<rparr>) \<le> best_inls (?st'\<lparr>iter := iter ?st' + 1\<rparr>)"
      using ransac_iteration_num_le_best[OF "1.prems"] by simp
    from "1.IH"[OF True refl this] True show ?thesis
      by (subst (1 2) ransac_loop.simps) (simp add: Let_def)
  next
    case False
    with "1.prems" show ?thesis by (subst (1 2) ransac_loop.simps) simp
  qed
qed

lemma get_plane_count_mask:
  assumes "get_plane E bm inl pts thr max_iters normal ndt g = (n, model, m, g')" and "n \<noteq> 0"
  shows "get_inliers model pts thr default_best_inls = (m, n)"
proof -
  from assms have big: "\<not> length pts < 3" by (auto simp: get_plane_def)
  let ?st = "ransac_loop E pts thr normal ndt
                   \<lparr>best_model = bm, best_inls = 0, num_inliers = 0,
                    inliers = inl, random_pool = [0..<length pts], shuffle_rng = g,
                    iter = 0, max_iterations = max_iters, rng = rng_default E\<rparr>"
  have le: "num_inliers ?st \<le> best_inls ?st"
    by (rule ransac_loop_num_le_best) simp
  show ?thesis
  proof (cases "best_inls ?st = 0")
    case True
    with assms big le show ?thesis
      by (auto simp: get_plane_def Let_def split: prod.splits)
  next
    case False
    with assms big le show ?thesis
      by (auto simp: get_plane_def Let_def split: prod.splits)
  qed
qed

lemma refine_candidate_count_mask:
  assumes "refine_candidate E thr normal ndt cand pts g = (best, cnt, inl, g')"
  shows "get_inliers best pts thr default_best_inls = (inl, cnt)"
  using refine_candidate_result[OF assms]
  by (simp add: default_best_inls_def get_inliers_exhaustive_eq)

text \<open>
  Claim C9.  For every plane, cloud, threshold and pruning bound (an early stop
  included) the count \<open>get_inliers\<close> returns is the number of true entries of the mask
  it leaves, the mask has one entry per point, and the compacted set of the
  mask-false points has exactly \<open>N - count\<close> rows.  The count and the mask with which
  the callers compact are such a result: those of a Phase B refinement always, those
  of \<open>get_plane\<close> whenever the count is not 0.
\<close>

theorem inlier_count_matches_mask:
  "snd (get_inliers model pts thr B) =
     int (length (filter (\<lambda>b. b) (fst (get_inliers model pts thr B)))) \<and>
   length (fst (get_inliers model pts thr B)) = length pts \<and>
   length (remove_inliers pts (fst (get_inliers model pts thr B))) =
     length pts - nat (snd (get_inliers model pts thr B)) \<and>
   (refine_candidate E thr normal ndt cand pts g = (best, cnt, inl, g') \<longrightarrow>
      get_inliers best pts thr default_best_inls = (inl, cnt)) \<and>
   (get_plane E bm inl0 pts thr max_iters normal ndt g = (n, found, m, g'') \<and> n \<noteq> 0 \<longrightarrow>
      get_inliers found pts thr default_best_inls = (m, n))"
  using get_inliers_count[of model pts thr B] get_inliers_length[of model pts thr B]
    remove_inliers_length[of "fst (get_inliers model pts thr B)" pts]
    refine_candidate_count_mask[of E thr normal ndt cand pts g best cnt inl g']
    get_plane_count_mask[of E bm inl0 pts thr max_iters normal ndt g n found m g'']
  by simp

theorem inlier_count_matches_mask_witness:
  "get_inliers plane_low [(0, 0, 0), (1, 0, 0), (0, 0, 5), (0, 1, 0)] 1 10 =
     ([True, True, False, False], 2) \<and>
   length (remove_inliers [(0, 0, 0), (1, 0, 0), (0, 0, 5), (0::real, 1::real, 0::real)]
             [True, True, False, False]) = 4 - nat 2 \<and>
   get_inliers plane_low demo7 1 default_best_inls =
     ([True, True, True, False, False, False, False], 3)"
proof -
  have e: "get_inliers plane_low [(0, 0, 0), (1, 0, 0), (0, 0, 5), (0, 1, 0)] 1 10 =
     ([True, True, False, False], 2)"
    by (simp add: get_inliers_def is_inlier_def Let_def)
  from inlier_count_matches_mask[where model = plane_low
        and pts = "[(0, 0, 0), (1, 0, 0), (0, 0, 5), (0, 1, 0)]" and thr = 1 and B = 10
        and E = demo_env and normal = None and ndt = 0 and cand = plane_low and g = 0
        and best = plane_low and cnt = 0 and inl = "[]" and g' = 0 and bm = plane_low
        and ?inl0.0 = "[]" and max_iters = 0 and n = 0 and found = plane_low and m = "[]"
        and g'' = 0]
  have c: "length (remove_inliers [(0, 0, 0), (1, 0, 0), (0, 0, 5), (0::real, 1::real, 0::real)]
             [True, True, False, False]) = 4 - nat 2"
    unfolding e by simp
  from inlier_count_matches_mask[where model = plane_low and pts = demo7 and thr = 1 and B = 0
        and E = demo_env and normal = None and ndt = 0 and cand = plane_low and g = 0
        and best = plane_low and cnt = 3
        and inl = "[True, True, True, False, False, False, False]" and g' = 0
        and bm = plane_low and ?inl0.0 = "[]" and max_iters = 0 and n = 0 and found = plane_low
        and m = "[]" and g'' = 0]
    demo_refine_low[of 0]
  have r: "get_inliers plane_low demo7 1 default_best_inls =
     ([True, True, True, False, False, False, False], 3)"
    by blast
  from e c r show ?thesis by blast
qed

section \<open>The iteration budget of \<open>get_plane\<close>\<close>

text \<open>
  Claim C6.  An iteration of \<open>get_plane\<close> that adopts a new best model (the best
  count changes) leaves \<open>max_iterations\<close> at \<open>shrink_budget (max_hyp best_inls N)\<close> of
  the budget before, and an iteration that adopts nothing leaves the budget alone;
  for \<open>0 < best_inls < N\<close> the cap \<open>max_hyp\<close> is \<open>3 ln (1 - 0.95) / ln (1 - (best_inls / N)\<^sup>3)\<close>;
  the budget is replaced only when the cap is finite and strictly smaller than the
  budget, and then by the cap cut to an integer.  So the budget never grows in an
  iteration, and after the whole loop it is at most what the loop started with.
\<close>

theorem iteration_budget_never_grows:
  fixes E :: "'g env" and pts thr normal ndt and st :: "'g ransac_state"
  defines "st' \<equiv> ransac_iteration E pts thr normal ndt st"
  shows "(best_inls st' \<noteq> best_inls st \<longrightarrow>
            max_iterations st' =
              shrink_budget (max_hyp (best_inls st') (length pts)) (max_iterations st)) \<and>
         (best_inls st' = best_inls st \<longrightarrow> max_iterations st' = max_iterations st) \<and>
         (0 < b \<and> b < int N \<longrightarrow>
            max_hyp b N = Finite (3 * ln (1 - 0.95) / ln (1 - (real_of_int b / real N) ^ 3))) \<and>
         (shrink_budget h budget \<noteq> budget \<longrightarrow>
            (\<exists>r. h = Finite r \<and> r < real_of_int budget \<and>
                 shrink_budget h budget = static_cast_int r)) \<and>
         shrink_budget h budget \<le> budget \<and>
         max_iterations st' \<le> max_iterations st \<and>
         max_iterations (ransac_loop E pts thr normal ndt st) \<le> max_iterations st"
  unfolding st'_def
  using ransac_iteration_adopts[of E pts thr normal ndt st]
    ransac_iteration_keeps[of E pts thr normal ndt st]
    max_hyp_formula[of b N] shrink_budget_changes[of h budget] shrink_budget_le[of h budget]
    ransac_iteration_budget[of E pts thr normal ndt st]
    ransac_loop_budget[of E pts thr normal ndt st]
  by blast

theorem iteration_budget_never_grows_witness:
  "best_inls (ransac_iteration demo_env high4 1 None 0
     \<lparr>best_model = (0, 0, 0, Some 0), best_inls = 0, num_inliers = 0,
      inliers = [False, False, False, False], random_pool = [0..<length high4], shuffle_rng = 0,
      iter = 0, max_iterations = 100, rng = 0\<rparr>) = 4 \<and>
   max_iterations (ransac_iteration demo_env high4 1 None 0
     \<lparr>best_model = (0, 0, 0, Some 0), best_inls = 0, num_inliers = 0,
      inliers = [False, False, False, False], random_pool = [0..<length high4], shuffle_rng = 0,
      iter = 0, max_iterations = 100, rng = 0\<rparr>) = shrink_budget (max_hyp 4 (length high4)) 100 \<and>
   shrink_budget (max_hyp 4 (length high4)) 100 = 0 \<and>
   max_iterations (ransac_loop demo_env high4 1 None 0
     \<lparr>best_model = (0, 0, 0, Some 0), best_inls = 0, num_inliers = 0,
      inliers = [False, False, False, False], random_pool = [0..<length high4], shuffle_rng = 0,
      iter = 0, max_iterations = 100, rng = 0\<rparr>) \<le> 100"
proof -
  let ?s0 = "\<lparr>best_model = (0, 0, 0, Some 0), best_inls = 0, num_inliers = 0,
      inliers = [False, False, False, False], random_pool = [0..<length high4], shuffle_rng = 0,
      iter = 0, max_iterations = 100, rng = 0\<rparr> :: nat ransac_state"
  note t = iteration_budget_never_grows[where E = demo_env and pts = high4 and thr = 1
      and normal = None and ndt = 0 and st = ?s0]
  have b: "best_inls (ransac_iteration demo_env high4 1 None 0 ?s0) = 4"
    unfolding demo_iteration_high by simp
  then have "best_inls (ransac_iteration demo_env high4 1 None 0 ?s0) \<noteq> best_inls ?s0"
    by simp
  with t have "max_iterations (ransac_iteration demo_env high4 1 None 0 ?s0) =
      shrink_budget (max_hyp (best_inls (ransac_iteration demo_env high4 1 None 0 ?s0))
        (length high4)) (max_iterations ?s0)"
    by blast
  then have m: "max_iterations (ransac_iteration demo_env high4 1 None 0 ?s0) =
      shrink_budget (max_hyp 4 (length high4)) 100"
    unfolding b by (simp only: ransac_state.simps lo_state.simps)
  have z: "shrink_budget (max_hyp 4 (length high4)) 100 = 0"
    by (simp add: max_hyp_def shrink_budget_def static_cast_int_def)
  from t have l: "max_iterations (ransac_loop demo_env high4 1 None 0 ?s0) \<le> 100"
    by simp
  from b m z l show ?thesis by blast
qed

section \<open>Properties of Phase B\<close>

subsection \<open>Ranked insertion\<close>

lemma rank_position_lt: "xs \<noteq> [] \<Longrightarrow> last xs \<le> b \<Longrightarrow> rank_position b xs < length xs"
  by (induction xs) (auto split: if_splits)

lemma rank_position_before: "x \<in> set (take (rank_position b xs) xs) \<Longrightarrow> b < x"
  by (induction xs) (auto split: if_splits)

lemma rank_position_after:
  "sorted_wrt (\<ge>) xs \<Longrightarrow> x \<in> set (drop (rank_position b xs) xs) \<Longrightarrow> x \<le> b"
  by (induction xs) (auto split: if_splits)

lemma rank_insert_sorted:
  "sorted_wrt (\<ge>) xs \<Longrightarrow> sorted_wrt (\<ge>) (insert_at (rank_position b xs) b xs)"
  unfolding insert_at_def
  by (induction xs) (auto split: if_splits dest: in_set_takeD in_set_dropD)

lemma rank_insert_last:
  "xs \<noteq> [] \<Longrightarrow> last xs \<le> b \<Longrightarrow> last (insert_at (rank_position b xs) b xs) = last xs"
  using rank_position_lt[of xs b] unfolding insert_at_def by simp

lemma insert_at_length: "length (insert_at e x v) = Suc (length v)"
  unfolding insert_at_def by simp

subsection \<open>Invariants of the rounds\<close>

lemma write_labels_length: "length (write_labels idx inl pn ls) = length ls"
  by (induction idx inl pn ls rule: write_labels.induct) auto

lemma write_labels_cases:
  "i < length ls \<Longrightarrow>
   write_labels idx inl pn ls ! i = ls ! i \<or>
   (i \<in> set idx \<and> write_labels idx inl pn ls ! i = pn)"
proof (induction idx inl pn ls rule: write_labels.induct)
  case (1 j idx b inl pn ls)
  let ?ls' = "if b then ls[j := pn] else ls"
  from 1 have "write_labels idx inl pn ?ls' ! i = ?ls' ! i \<or>
      (i \<in> set idx \<and> write_labels idx inl pn ?ls' ! i = pn)" by simp
  moreover have "?ls' ! i = ls ! i \<or> (i = j \<and> ?ls' ! i = pn)"
    using "1.prems" by (cases "i = j") auto
  ultimately show ?case by auto
qed auto

lemma remove_inliers_subset: "set (remove_inliers idx inl) \<subseteq> set idx"
  unfolding remove_inliers_def by (auto dest: set_zip_leftD)

lemma remove_inliers_distinct: "distinct idx \<Longrightarrow> distinct (remove_inliers idx inl)"
  unfolding remove_inliers_def
  by (induction idx inl rule: list_induct2') (auto dest: set_zip_leftD)

lemma write_labels_kept:
  "length inl = length idx \<Longrightarrow> distinct idx \<Longrightarrow> i \<in> set (remove_inliers idx inl) \<Longrightarrow>
   i < length ls \<Longrightarrow> write_labels idx inl pn ls ! i = ls ! i"
proof (induction idx inl arbitrary: ls rule: list_induct2')
  case (4 j idx b inl)
  then have len: "length inl = length idx" and d: "distinct idx" and j: "j \<notin> set idx" by auto
  note sub = remove_inliers_subset[of idx inl]
  show ?case
  proof (cases b)
    case True
    with 4 have i: "i \<in> set (remove_inliers idx inl)" by (simp add: remove_inliers_def)
    with sub j have "i \<noteq> j" by auto
    with "4.IH"[OF len d i, of "ls[j := pn]"] True "4.prems"(4) show ?thesis by simp
  next
    case False
    with 4 have "i = j \<or> i \<in> set (remove_inliers idx inl)" by (auto simp: remove_inliers_def)
    then show ?thesis
    proof
      assume "i = j"
      from write_labels_cases[OF "4.prems"(4), of idx inl pn] j \<open>i = j\<close>
      have "write_labels idx inl pn ls ! j = ls ! j" by auto
      with False \<open>i = j\<close> show ?thesis by simp
    next
      assume "i \<in> set (remove_inliers idx inl)"
      with "4.IH"[OF len d this, of ls] False "4.prems"(4) show ?thesis by simp
    qed
  qed
qed (auto simp: remove_inliers_def)

lemma phase_b_rounds_0: "phase_b_rounds E thr normal ndt planes_a 0 st = st"
  by (simp add: phase_b_rounds_def)

lemma phase_b_rounds_Suc:
  "phase_b_rounds E thr normal ndt planes_a (Suc k) st =
     phase_b_round E thr normal ndt planes_a (Suc k) (phase_b_rounds E thr normal ndt planes_a k st)"
  by (simp add: phase_b_rounds_def)

lemma phase_b_round_ranking:
  assumes "ranking_ok st"
    and "refine_candidate E thr normal ndt (planes_a ! (plane_num - 1)) (points3d st) (the_rng st)
           = (best, cnt, inl, g)"
  shows "ranking_ok (phase_b_round E thr normal ndt planes_a plane_num st)"
    and "plane_inls_num (phase_b_round E thr normal ndt planes_a plane_num st) =
           insert_at (rank_position cnt (plane_inls_num st)) cnt (plane_inls_num st)"
    and "planes (phase_b_round E thr normal ndt planes_a plane_num st) =
           insert_at (rank_position cnt (plane_inls_num st)) best (planes st)"
proof -
  have c: "0 \<le> cnt" using refine_candidate_result(2)[OF assms(2)] by simp
  show p: "plane_inls_num (phase_b_round E thr normal ndt planes_a plane_num st) =
           insert_at (rank_position cnt (plane_inls_num st)) cnt (plane_inls_num st)"
    and q: "planes (phase_b_round E thr normal ndt planes_a plane_num st) =
           insert_at (rank_position cnt (plane_inls_num st)) best (planes st)"
    unfolding phase_b_round_def assms(2) by (simp_all add: Let_def)
  from assms(1) c show "ranking_ok (phase_b_round E thr normal ndt planes_a plane_num st)"
    unfolding ranking_ok_def p q
    by (auto simp: rank_insert_sorted rank_insert_last) (simp add: insert_at_def)
qed

lemma phase_b_round_working_set:
  assumes "working_set_ok st" and "plane_num \<noteq> length planes_a"
  shows "working_set_ok (phase_b_round E thr normal ndt planes_a plane_num st)"
proof -
  obtain best cnt inl g where r:
    "refine_candidate E thr normal ndt (planes_a ! (plane_num - 1)) (points3d st) (the_rng st)
       = (best, cnt, inl, g)"
    by (metis prod_cases4)
  have len: "length inl = length (orig_pts_idx st)"
    using refine_candidate_result(1)[OF r] assms(1) by (simp add: working_set_ok_def)
  let ?st' = "phase_b_round E thr normal ndt planes_a plane_num st"
  have pts: "points3d ?st' = remove_inliers (points3d st) inl"
    and idx: "orig_pts_idx ?st' = remove_inliers (orig_pts_idx st) inl"
    and lab: "labels ?st' = write_labels (orig_pts_idx st) inl plane_num (labels st)"
    using assms(2) unfolding phase_b_round_def r by (simp_all add: Let_def)
  have l1: "length (orig_pts_idx ?st') = length (points3d ?st')"
  proof -
    from assms(1) have e: "length (orig_pts_idx st) = length (points3d st)"
      by (simp add: working_set_ok_def)
    show ?thesis
      unfolding pts idx
      using remove_inliers_length[of inl "orig_pts_idx st"]
        remove_inliers_length[of inl "points3d st"] len e by simp
  qed
  show ?thesis
    unfolding working_set_ok_def
  proof (intro conjI ballI)
    show "length (orig_pts_idx ?st') = length (points3d ?st')" by (rule l1)
    show "distinct (orig_pts_idx ?st')"
      unfolding idx using assms(1) by (simp add: remove_inliers_distinct working_set_ok_def)
  next
    fix i assume i: "i \<in> set (orig_pts_idx ?st')"
    then have i': "i \<in> set (orig_pts_idx st)" unfolding idx using remove_inliers_subset by fast
    with assms(1) have b: "i < length (labels st)" "labels st ! i = 0"
      by (auto simp: working_set_ok_def)
    show "i < length (labels ?st')" unfolding lab using b by (simp add: write_labels_length)
    from write_labels_kept[OF len _ i[unfolded idx] b(1), of plane_num] assms(1) b
    show "labels ?st' ! i = 0" unfolding lab by (simp add: working_set_ok_def)
  qed
qed

lemma phase_b_init_ok:
  "ranking_ok (phase_b_init pts planes_in g)" "working_set_ok (phase_b_init pts planes_in g)"
  by (simp_all add: ranking_ok_def working_set_ok_def phase_b_init_def)

lemma phase_b_rounds_ranking:
  "ranking_ok (phase_b_rounds E thr normal ndt planes_a k (phase_b_init pts planes_in g))"
proof (induction k)
  case 0
  then show ?case by (simp add: phase_b_rounds_0 phase_b_init_ok)
next
  case (Suc k)
  let ?st = "phase_b_rounds E thr normal ndt planes_a k (phase_b_init pts planes_in g)"
  obtain best cnt inl g' where
    "refine_candidate E thr normal ndt (planes_a ! (Suc k - 1)) (points3d ?st) (the_rng ?st)
       = (best, cnt, inl, g')"
    by (metis prod_cases4)
  from phase_b_round_ranking(1)[OF Suc this] show ?case
    unfolding phase_b_rounds_Suc .
qed

lemma phase_b_round_labels_length:
  "length (labels (phase_b_round E thr normal ndt planes_a plane_num st)) = length (labels st)"
  unfolding phase_b_round_def
  by (auto simp: Let_def write_labels_length split: prod.splits)

lemma phase_b_rounds_labels_length:
  "length (labels (phase_b_rounds E thr normal ndt planes_a k (phase_b_init pts planes_in g))) = length pts"
  by (induction k)
     (simp_all add: phase_b_rounds_0 phase_b_rounds_Suc phase_b_round_labels_length
        phase_b_init_def)

lemma phase_b_rounds_working_set:
  "k < length planes_a \<Longrightarrow>
   working_set_ok (phase_b_rounds E thr normal ndt planes_a k (phase_b_init pts planes_in g))"
proof (induction k)
  case 0
  then show ?case by (simp add: phase_b_rounds_0 phase_b_init_ok)
next
  case (Suc k)
  then have "working_set_ok (phase_b_rounds E thr normal ndt planes_a k (phase_b_init pts planes_in g))"
    and "Suc k \<noteq> length planes_a" by simp_all
  from phase_b_round_working_set[OF this] show ?case unfolding phase_b_rounds_Suc .
qed

lemma phase_b_round_labels:
  "labels (phase_b_round E thr normal ndt planes_a plane_num st) =
     write_labels (orig_pts_idx st)
       (fst (snd (snd (refine_candidate E thr normal ndt (planes_a ! (plane_num - 1))
                         (points3d st) (the_rng st)))))
       plane_num (labels st)"
  unfolding phase_b_round_def by (auto simp: Let_def split: prod.splits)

lemma phase_b_rounds_counts_length:
  "length (plane_inls_num (phase_b_rounds E thr normal ndt planes_a k (phase_b_init pts planes_in g)))
     = Suc k"
proof (induction k)
  case 0
  then show ?case by (simp add: phase_b_rounds_0 phase_b_init_def)
next
  case (Suc k)
  let ?st = "phase_b_rounds E thr normal ndt planes_a k (phase_b_init pts planes_in g)"
  obtain best cnt inl g' where r:
    "refine_candidate E thr normal ndt (planes_a ! (Suc k - 1)) (points3d ?st) (the_rng ?st)
       = (best, cnt, inl, g')"
    by (metis prod_cases4)
  from phase_b_round_ranking(2)[OF phase_b_rounds_ranking r] Suc show ?case
    unfolding phase_b_rounds_Suc by (simp add: insert_at_length)
qed

lemma rank_position_counts:
  assumes "refine_candidate E thr normal ndt cand pts' g' = (best, cnt, inl, g'')"
  shows "rank_position cnt
           (plane_inls_num (phase_b_rounds E thr normal ndt planes_a k
                              (phase_b_init pts planes_in g)))
         \<le> k"
proof -
  let ?st = "phase_b_rounds E thr normal ndt planes_a k (phase_b_init pts planes_in g)"
  have ok: "ranking_ok ?st" by (rule phase_b_rounds_ranking)
  have "0 \<le> cnt" using refine_candidate_result(2)[OF assms] by simp
  with ok have "rank_position cnt (plane_inls_num ?st) < length (plane_inls_num ?st)"
    by (intro rank_position_lt) (auto simp: ranking_ok_def)
  then show ?thesis by (simp add: phase_b_rounds_counts_length)
qed

lemma drop_insert_at: "e \<le> k \<Longrightarrow> drop (Suc k) (insert_at e x v) = drop k v"
  unfolding insert_at_def by (simp add: Suc_diff_le min_def)

text \<open>
  After \<open>k\<close> rounds the first \<open>k\<close> entries of \<open>planes\<close> are the planes of the rounds, and
  behind them stands what the caller handed in.
\<close>

lemma phase_b_rounds_planes:
  "drop k (planes (phase_b_rounds E thr normal ndt planes_a k (phase_b_init pts planes_in g)))
     = planes_in \<and>
   length (planes (phase_b_rounds E thr normal ndt planes_a k (phase_b_init pts planes_in g)))
     = k + length planes_in"
proof (induction k)
  case 0
  then show ?case by (simp add: phase_b_rounds_0 phase_b_init_def)
next
  case (Suc k)
  let ?st = "phase_b_rounds E thr normal ndt planes_a k (phase_b_init pts planes_in g)"
  obtain best cnt inl g' where r:
    "refine_candidate E thr normal ndt (planes_a ! (Suc k - 1)) (points3d ?st) (the_rng ?st)
       = (best, cnt, inl, g')"
    by (metis prod_cases4)
  have e: "rank_position cnt (plane_inls_num ?st) \<le> k" by (rule rank_position_counts[OF r])
  from phase_b_round_ranking(3)[OF phase_b_rounds_ranking r] Suc e show ?case
    unfolding phase_b_rounds_Suc by (simp add: insert_at_length drop_insert_at)
qed


subsection \<open>The ranked list\<close>

text \<open>
  Claim C3, as amended.  Round \<open>k + 1\<close> of Phase B inserts the refined plane and its
  count at one position \<open>e \<le> k\<close> of \<open>planes\<close> and \<open>plane_inls_num\<close>; every count before
  \<open>e\<close> is strictly greater than the new count and every count from \<open>e\<close> on is less
  or equal, so the counts stay non-increasing by rank and the new plane stands before
  every earlier plane of equal count (the earlier entries keep their order).  The
  counts of the \<open>k + 1\<close> planes are followed by the closing 0, and the planes by what the
  caller handed in.
\<close>

theorem ranked_insertion_descending_ties_first:
  fixes E :: "'g env" and thr normal ndt planes_a pts planes_in g k
  defines "before \<equiv> phase_b_rounds E thr normal ndt planes_a k (phase_b_init pts planes_in g)"
    and "after \<equiv> phase_b_rounds E thr normal ndt planes_a (Suc k) (phase_b_init pts planes_in g)"
  assumes "k < length planes_a"
  shows "\<exists>e cnt best.
     e \<le> k \<and>
     planes after = insert_at e best (planes before) \<and>
     plane_inls_num after = insert_at e cnt (plane_inls_num before) \<and>
     cnt = int (length (filter (is_inlier best thr) (points3d before))) \<and>
     (\<forall>x \<in> set (take e (plane_inls_num before)). cnt < x) \<and>
     (\<forall>x \<in> set (drop e (plane_inls_num before)). x \<le> cnt) \<and>
     sorted_wrt (\<ge>) (plane_inls_num after) \<and>
     length (plane_inls_num after) = Suc (Suc k) \<and>
     drop (Suc k) (planes after) = planes_in"
proof -
  obtain best cnt inl g' where r:
    "refine_candidate E thr normal ndt (planes_a ! (Suc k - 1)) (points3d before) (the_rng before)
       = (best, cnt, inl, g')"
    by (metis prod_cases4)
  have ok: "ranking_ok before" unfolding before_def by (rule phase_b_rounds_ranking)
  have ok': "ranking_ok after" unfolding after_def by (rule phase_b_rounds_ranking)
  let ?e = "rank_position cnt (plane_inls_num before)"
  have c: "cnt = int (length (filter (is_inlier best thr) (points3d before)))"
    by (rule refine_candidate_result(2)[OF r])
  have e: "?e \<le> k" unfolding before_def by (rule rank_position_counts[OF r])
  have p: "planes after = insert_at ?e best (planes before)"
    and n: "plane_inls_num after = insert_at ?e cnt (plane_inls_num before)"
    using phase_b_round_ranking(2,3)[OF ok r]
    unfolding after_def phase_b_rounds_Suc before_def[symmetric] by simp_all
  have b: "\<forall>x \<in> set (take ?e (plane_inls_num before)). cnt < x"
    using rank_position_before by blast
  have a: "\<forall>x \<in> set (drop ?e (plane_inls_num before)). x \<le> cnt"
    using rank_position_after[of "plane_inls_num before" _ cnt] ok by (auto simp: ranking_ok_def)
  from ok' have s: "sorted_wrt (\<ge>) (plane_inls_num after)"
    by (simp add: ranking_ok_def)
  have l: "length (plane_inls_num after) = Suc (Suc k)"
    unfolding after_def by (rule phase_b_rounds_counts_length)
  have d: "drop (Suc k) (planes after) = planes_in"
    unfolding after_def using phase_b_rounds_planes[of "Suc k" E thr normal ndt planes_a pts planes_in g]
    by simp
  from e p n c b a s l d show ?thesis by blast
qed

theorem ranked_insertion_descending_ties_first_witness:
  "(1::nat) < length [plane_low, plane_high] \<and>
   plane_inls_num (phase_b_rounds demo_env 1 None 0 [plane_low, plane_high] 1
                     (phase_b_init tie6 [] 0)) = [3, 0] \<and>
   (\<exists>e cnt best.
      e \<le> (1::nat) \<and>
      planes (phase_b_rounds demo_env 1 None 0 [plane_low, plane_high] (Suc 1)
                (phase_b_init tie6 [] 0)) =
        insert_at e best [plane_low] \<and>
      plane_inls_num (phase_b_rounds demo_env 1 None 0 [plane_low, plane_high] (Suc 1)
                (phase_b_init tie6 [] 0)) =
        insert_at e cnt [3, 0] \<and>
      sorted_wrt (\<ge>) (insert_at e cnt [3, 0]))"
proof -
  have h: "(1::nat) < length [plane_low, plane_high]" by simp
  have f: "plane_inls_num (phase_b_rounds demo_env 1 None 0 [plane_low, plane_high] 1
                     (phase_b_init tie6 [] 0)) = [3, 0]"
    unfolding tie6_phase_b_first_round by simp
  from ranked_insertion_descending_ties_first[OF h, where E = demo_env and thr = 1
      and normal = None and ndt = 0 and pts = tie6 and planes_in = "[]" and g = 0]
  have "\<exists>e cnt best.
      e \<le> (1::nat) \<and>
      planes (phase_b_rounds demo_env 1 None 0 [plane_low, plane_high] (Suc 1)
                (phase_b_init tie6 [] 0)) =
        insert_at e best [plane_low] \<and>
      plane_inls_num (phase_b_rounds demo_env 1 None 0 [plane_low, plane_high] (Suc 1)
                (phase_b_init tie6 [] 0)) =
        insert_at e cnt [3, 0] \<and>
      sorted_wrt (\<ge>) (insert_at e cnt [3, 0])"
    unfolding tie6_phase_b_first_round
    by (simp only: refine_state.simps) metis
  with h f show ?thesis by blast
qed

text \<open>
  The claim as stated fails on ties.  On three points of the plane \<open>z = 0\<close> and three
  of the plane \<open>z = 10\<close>, with threshold 1, one iteration and two desired planes, Phase A
  finds \<open>z = 0\<close> first and \<open>z = 10\<close> second, Phase B counts three inliers for each, and
  the returned list has \<open>z = 10\<close>, the plane found later, in front.
\<close>

theorem equal_counts_newest_first:
  "fst (phase_a demo_env 1 1 None 0 (nat 2) tie6 (replicate (length tie6) False) 0)
     = [plane_low, plane_high] \<and>
   plane_inls_num (phase_b demo_env 1 None 0 [plane_low, plane_high] tie6 [] 0) = [3, 3, 0] \<and>
   get_planes demo_env (\<lambda>pts grid_size. pts) [] (Std_vector tie6) 1 1 2 0 None 0 0
     = Inr ([1, 1, 1, 2, 2, 2], [plane_high, plane_low])"
  by (simp add: get_planes_def input_points_def tie6_phase_a[simplified] tie6_phase_b)

subsection \<open>The labels\<close>

lemma label_step:
  assumes "k < length planes_a" and "i < length pts"
  shows "labels (phase_b_rounds E thr normal ndt planes_a (Suc k) (phase_b_init pts planes_in g)) ! i =
           labels (phase_b_rounds E thr normal ndt planes_a k (phase_b_init pts planes_in g)) ! i \<or>
         (labels (phase_b_rounds E thr normal ndt planes_a k (phase_b_init pts planes_in g)) ! i = 0 \<and>
          i \<in> set (orig_pts_idx (phase_b_rounds E thr normal ndt planes_a k (phase_b_init pts planes_in g))) \<and>
          labels (phase_b_rounds E thr normal ndt planes_a (Suc k) (phase_b_init pts planes_in g)) ! i = Suc k)"
proof -
  let ?st = "phase_b_rounds E thr normal ndt planes_a k (phase_b_init pts planes_in g)"
  have w: "working_set_ok ?st" using assms(1) by (rule phase_b_rounds_working_set)
  have i: "i < length (labels ?st)" using assms(2) by (simp add: phase_b_rounds_labels_length)
  from write_labels_cases[OF i] w show ?thesis
    unfolding phase_b_rounds_Suc phase_b_round_labels working_set_ok_def by blast
qed

lemma label_bound:
  assumes "k \<le> length planes_a" and "i < length pts"
  shows "labels (phase_b_rounds E thr normal ndt planes_a k (phase_b_init pts planes_in g)) ! i \<le> k"
  using assms(1)
proof (induction k)
  case 0
  then show ?case using assms(2) by (simp add: phase_b_rounds_0 phase_b_init_def)
next
  case (Suc k)
  then have "k < length planes_a" by simp
  from label_step[OF this assms(2), of E thr normal ndt planes_in g] Suc show ?case by auto
qed

lemma label_stays:
  assumes "j \<le> k" and "k \<le> length planes_a" and "i < length pts"
    and "labels (phase_b_rounds E thr normal ndt planes_a j (phase_b_init pts planes_in g)) ! i \<noteq> 0"
  shows "labels (phase_b_rounds E thr normal ndt planes_a k (phase_b_init pts planes_in g)) ! i =
         labels (phase_b_rounds E thr normal ndt planes_a j (phase_b_init pts planes_in g)) ! i"
  using assms(1,2)
proof (induction k)
  case 0
  then show ?case by simp
next
  case (Suc k)
  show ?case
  proof (cases "j = Suc k")
    case True
    then show ?thesis by simp
  next
    case False
    with Suc have jk: "j \<le> k" and k: "k < length planes_a" by simp_all
    with Suc have IH: "labels (phase_b_rounds E thr normal ndt planes_a k (phase_b_init pts planes_in g)) ! i =
         labels (phase_b_rounds E thr normal ndt planes_a j (phase_b_init pts planes_in g)) ! i" by simp
    from label_step[OF k assms(3), of E thr normal ndt planes_in g] IH assms(4) show ?thesis by auto
  qed
qed

text \<open>
  Claim C10.  In round \<open>k + 1\<close> of Phase B a label either keeps its value or changes
  from 0 to the round number \<open>k + 1\<close>, and then its point is in the working set; a
  point with a nonzero label is not in the working set; a label that is nonzero after
  round \<open>j\<close> has the same value after every later round; and no label exceeds the
  number of rounds run.  So every label is written at most once and is 0 or the number
  of the round that removed its point.
\<close>

theorem label_written_at_most_once:
  fixes E :: "'g env" and thr normal ndt planes_a pts planes_in g j k i
  defines "earlier \<equiv> phase_b_rounds E thr normal ndt planes_a j (phase_b_init pts planes_in g)"
    and "before \<equiv> phase_b_rounds E thr normal ndt planes_a k (phase_b_init pts planes_in g)"
    and "after \<equiv> phase_b_rounds E thr normal ndt planes_a (Suc k) (phase_b_init pts planes_in g)"
  assumes "j \<le> k" and "k < length planes_a" and "i < length pts"
  shows "(labels after ! i = labels before ! i \<or>
          (labels before ! i = 0 \<and> i \<in> set (orig_pts_idx before) \<and> labels after ! i = Suc k)) \<and>
         (labels before ! i \<noteq> 0 \<longrightarrow> i \<notin> set (orig_pts_idx before)) \<and>
         (labels earlier ! i \<noteq> 0 \<longrightarrow> labels after ! i = labels earlier ! i) \<and>
         labels after ! i \<le> Suc k"
proof -
  have w: "working_set_ok before"
    unfolding before_def using assms(5) by (rule phase_b_rounds_working_set)
  have 1: "labels before ! i \<noteq> 0 \<longrightarrow> i \<notin> set (orig_pts_idx before)"
    using w by (auto simp: working_set_ok_def)
  have 2: "labels earlier ! i \<noteq> 0 \<longrightarrow> labels after ! i = labels earlier ! i"
    unfolding earlier_def after_def
    using label_stays[of j "Suc k" planes_a i pts E thr normal ndt planes_in g] assms(4-6) by simp
  have 3: "labels after ! i \<le> Suc k"
    unfolding after_def
    using label_bound[of "Suc k" planes_a i pts E thr normal ndt planes_in g] assms(5,6) by simp
  from label_step[OF assms(5,6), of E thr normal ndt planes_in g] 1 2 3 show ?thesis
    unfolding before_def after_def by blast
qed

theorem label_written_at_most_once_witness:
  "(0::nat) \<le> 1 \<and> (1::nat) < length [plane_low, plane_high] \<and> (3::nat) < length demo7 \<and>
   labels (phase_b_rounds demo_env 1 None 0 [plane_low, plane_high] 1 (phase_b_init demo7 [] 0)) ! 3
     = 0 \<and>
   labels (phase_b_rounds demo_env 1 None 0 [plane_low, plane_high] (Suc 1)
             (phase_b_init demo7 [] 0)) ! 3 = Suc 1 \<and>
   3 \<in> set (orig_pts_idx (phase_b_rounds demo_env 1 None 0 [plane_low, plane_high] 1
                              (phase_b_init demo7 [] 0)))"
proof -
  have h: "(0::nat) \<le> 1" "(1::nat) < length [plane_low, plane_high]" "(3::nat) < length demo7"
    by simp_all
  have a: "labels (phase_b_rounds demo_env 1 None 0 [plane_low, plane_high] 1
             (phase_b_init demo7 [] 0)) ! 3 = 0"
    unfolding demo_phase_b_first_round by simp
  have b: "labels (phase_b_rounds demo_env 1 None 0 [plane_low, plane_high] (Suc 1)
             (phase_b_init demo7 [] 0)) ! 3 \<noteq>
           labels (phase_b_rounds demo_env 1 None 0 [plane_low, plane_high] 1
             (phase_b_init demo7 [] 0)) ! 3"
    unfolding demo_phase_b_first_round demo_phase_b_second_round by simp
  from label_written_at_most_once[OF h, where E = demo_env and thr = 1 and normal = None
      and ndt = 0 and g = 0] a b h
  show ?thesis by blast
qed

lemma remove_inliers_map: "remove_inliers (map f xs) inl = map f (remove_inliers xs inl)"
  unfolding remove_inliers_def
  by (induction xs inl rule: list_induct2') auto

lemma write_labels_changed:
  "write_labels idx inl pn ls ! i \<noteq> ls ! i \<Longrightarrow>
   \<exists>p. p < length idx \<and> p < length inl \<and> idx ! p = i \<and> inl ! p"
proof (induction idx inl pn ls rule: write_labels.induct)
  case (1 j idx b inl pn ls)
  let ?ls' = "if b then ls[j := pn] else ls"
  show ?case
  proof (cases "write_labels idx inl pn ?ls' ! i = ?ls' ! i")
    case True
    with "1.prems" have "?ls' ! i \<noteq> ls ! i" by simp
    then have "b \<and> i = j" by (cases b; cases "i = j") auto
    then have "0 < length (j # idx) \<and> 0 < length (b # inl) \<and> (j # idx) ! 0 = i \<and> (b # inl) ! 0"
      by simp
    then show ?thesis by blast
  next
    case False
    from "1.IH"[OF False] obtain p where
      "p < length idx" "p < length inl" "idx ! p = i" "inl ! p" by blast
    then have "Suc p < length (j # idx) \<and> Suc p < length (b # inl) \<and>
               (j # idx) ! Suc p = i \<and> (b # inl) ! Suc p"
      by simp
    then show ?thesis by blast
  qed
qed auto

lemma phase_b_rounds_points:
  "k < length planes_a \<Longrightarrow>
   points3d (phase_b_rounds E thr normal ndt planes_a k (phase_b_init pts planes_in g)) =
     map ((!) pts) (orig_pts_idx (phase_b_rounds E thr normal ndt planes_a k (phase_b_init pts planes_in g)))"
proof (induction k)
  case 0
  then show ?case by (simp add: phase_b_rounds_0 phase_b_init_def map_nth)
next
  case (Suc k)
  let ?st = "phase_b_rounds E thr normal ndt planes_a k (phase_b_init pts planes_in g)"
  from Suc have IH: "points3d ?st = map ((!) pts) (orig_pts_idx ?st)"
    and ne: "Suc k \<noteq> length planes_a" by simp_all
  show ?case
    unfolding phase_b_rounds_Suc phase_b_round_def using ne
    by (simp add: Let_def IH remove_inliers_map[symmetric] split: prod.splits)
qed

text \<open>
  What the labels do give: a point whose label is written in round \<open>k + 1\<close> is an
  inlier of the plane refined in that round, the plane that the round inserts into
  \<open>planes\<close> at its rank.
\<close>

lemma labelled_point_is_inlier_of_its_round:
  assumes "k < length planes_a" and "i < length pts"
    and "labels (phase_b_rounds E thr normal ndt planes_a (Suc k) (phase_b_init pts planes_in g)) ! i \<noteq>
         labels (phase_b_rounds E thr normal ndt planes_a k (phase_b_init pts planes_in g)) ! i"
  shows "is_inlier
           (fst (refine_candidate E thr normal ndt (planes_a ! k)
                   (points3d (phase_b_rounds E thr normal ndt planes_a k (phase_b_init pts planes_in g)))
                   (the_rng (phase_b_rounds E thr normal ndt planes_a k (phase_b_init pts planes_in g)))))
           thr (pts ! i)"
proof -
  let ?st = "phase_b_rounds E thr normal ndt planes_a k (phase_b_init pts planes_in g)"
  obtain best cnt inl g' where r:
    "refine_candidate E thr normal ndt (planes_a ! k) (points3d ?st) (the_rng ?st)
       = (best, cnt, inl, g')"
    by (metis prod_cases4)
  have inl: "inl = map (is_inlier best thr) (points3d ?st)"
    by (rule refine_candidate_result(1)[OF r])
  have pts: "points3d ?st = map ((!) pts) (orig_pts_idx ?st)"
    using assms(1) by (rule phase_b_rounds_points)
  from assms(3) have "write_labels (orig_pts_idx ?st) inl (Suc k) (labels ?st) ! i \<noteq> labels ?st ! i"
    unfolding phase_b_rounds_Suc phase_b_round_labels using r by simp
  from write_labels_changed[OF this] obtain p where
    p: "p < length (orig_pts_idx ?st)" "p < length inl" "orig_pts_idx ?st ! p = i" "inl ! p"
    by blast
  then have "is_inlier best thr (pts ! i)" unfolding inl pts by simp
  with r show ?thesis by simp
qed

text \<open>
  Claim C1 is not met by the program.  On the cloud of three points in the plane
  \<open>z = 0\<close> and four points in the plane \<open>z = 10\<close>, with threshold 1, one iteration and
  two desired planes, Phase A finds \<open>z = 0\<close> first; Phase B counts 3 and 4 inliers and
  ranks \<open>z = 10\<close> first, and the labels still carry the round numbers: the first three
  points are labelled 1, and the first plane of the returned list is \<open>z = 10\<close>, from
  which they are 10 away.
\<close>

theorem labels_follow_discovery_order:
  "get_planes demo_env (\<lambda>pts grid_size. pts) [] (Std_vector demo7) 1 1 2 0 None 0 0 =
     Inr ([1, 1, 1, 2, 2, 2, 2], [plane_high, plane_low]) \<and>
   \<not> is_inlier plane_high 1 (demo7 ! 0)"
  by (simp add: get_planes_def input_points_def demo_phase_a[simplified] demo_phase_b
        is_inlier_def)

theorem labels_follow_discovery_order_witness:
  "fst (projr (get_planes demo_env (\<lambda>pts grid_size. pts) [] (Std_vector demo7) 1 1 2 0 None 0 0))
     ! 0 = 1 \<and>
   snd (projr (get_planes demo_env (\<lambda>pts grid_size. pts) [] (Std_vector demo7) 1 1 2 0 None 0 0))
     ! (1 - 1) = plane_high \<and>
   \<not> is_inlier plane_high 1 (0, 0, 0)"
  using labels_follow_discovery_order by simp

subsection \<open>The sample size of the refits\<close>

lemma estimate_up_to_fields [simp]:
  "estimate (estimate_up_to k E) pts s = (if length s \<le> k then estimate E pts s else None)"
  "randShuffle (estimate_up_to k E) = randShuffle E"
  "uniform (estimate_up_to k E) = uniform E"
  "rng_default (estimate_up_to k E) = rng_default E"
  by (simp_all add: estimate_up_to_def)

lemma local_optimization_estimate_up_to:
  "0 < k \<Longrightarrow>
   local_optimization (estimate_up_to k E) pts thr normal ndt k rounds st =
   local_optimization E pts thr normal ndt k rounds st"
proof (induction rounds arbitrary: st)
  case 0
  then show ?case by simp
next
  case (Suc rounds)
  have "length (collect_inlier_sample k inl pool []) \<le> k" for inl pool
    using collect_inlier_sample_length[of k "[]" inl pool] Suc.prems by simp
  then show ?case
    by (simp add: local_optimization.simps Let_def Suc.IH[OF Suc.prems]
             split: prod.splits option.splits)
qed

lemma refine_candidate_estimate_up_to:
  "refine_candidate (estimate_up_to phase_b_max_lo_inliers E) thr normal ndt cand pts g =
   refine_candidate E thr normal ndt cand pts g"
  unfolding refine_candidate_def
  by (simp add: local_optimization_estimate_up_to phase_b_max_lo_inliers_def)

lemma phase_b_round_estimate_up_to:
  "phase_b_round (estimate_up_to phase_b_max_lo_inliers E) thr normal ndt planes_a plane_num st =
   phase_b_round E thr normal ndt planes_a plane_num st"
  unfolding phase_b_round_def by (simp add: refine_candidate_estimate_up_to)

lemma phase_b_estimate_up_to:
  "phase_b (estimate_up_to phase_b_max_lo_inliers E) thr normal ndt planes_a pts planes_in g =
   phase_b E thr normal ndt planes_a pts planes_in g"
proof -
  have "phase_b_round (estimate_up_to phase_b_max_lo_inliers E) thr normal ndt planes_a =
        phase_b_round E thr normal ndt planes_a"
    by (intro ext) (rule phase_b_round_estimate_up_to)
  then show ?thesis unfolding phase_b_def phase_b_rounds_def by simp
qed

lemma local_optimization_shuffles:
  assumes "\<And>g xs. cnt (snd (randShuffle E g xs)) = Suc (cnt g)"
  shows "cnt (shuffle_rng (local_optimization E pts thr normal ndt k rounds st))
           \<le> cnt (shuffle_rng st) + rounds"
proof (induction rounds arbitrary: st)
  case 0
  then show ?case by simp
next
  case (Suc rounds)
  have c: "cnt g = Suc (cnt (shuffle_rng st))"
    if "randShuffle E (shuffle_rng st) (random_pool st) = (pool, g)" for pool g
    using assms[of "shuffle_rng st" "random_pool st"] that by simp
  show ?case
    by (auto simp: local_optimization.simps Let_def c split: prod.splits option.splits
             intro!: order_trans[OF Suc.IH])
qed

lemma refine_candidate_shuffles:
  assumes "\<And>g xs. cnt (snd (randShuffle E g xs)) = Suc (cnt g)"
  shows "cnt (snd (snd (snd (refine_candidate E thr normal ndt cand pts g)))) \<le> cnt g + 3"
proof -
  obtain m0 n0 where s0: "get_inliers cand pts thr default_best_inls = (m0, n0)"
    by (cases "get_inliers cand pts thr default_best_inls") auto
  let ?s = "\<lparr>best_model = cand, best_inls = n0, num_inliers = 0, inliers = m0,
             random_pool = [0..<length pts], shuffle_rng = g\<rparr>"
  from local_optimization_shuffles[OF assms, of pts thr normal ndt phase_b_max_lo_inliers
      phase_b_max_lo_iters ?s]
  show ?thesis
    unfolding refine_candidate_def s0
    by (simp add: Let_def phase_b_max_lo_iters_def split: prod.splits)
qed

lemmas row21_eval =
  get_inliers_not_pruned is_inlier_def default_best_inls_def normal_rejects_def
  total_least_squares_plane_estimate_def sample_mean_def phase_b_max_lo_inliers_def
  eval_nat_numeral

lemma row21_refine:
  "refine_candidate counting_env 1 None 0 plane_low row21 0
     = (plane_low, 21, replicate 21 True, 1)"
  by (rule refine_candidate_first_round_ties[where lo_model = plane_low
        and pool = "[0..<length row21]" and m' = "replicate 21 True"])
     (simp_all add: row21_eval)

lemma row21_refine_cut:
  "refine_candidate (estimate_up_to 20 counting_env) 1 None 0 plane_low row21 0
     = (plane_low, 21, replicate 21 True, 3)"
  by (rule refine_candidate_all_rounds_fail[where pa = "[0..<length row21]" and ga = 1
        and pb = "[0..<length row21]" and gb = 2 and pc = "[0..<length row21]"])
     (simp_all add: row21_eval)

text \<open>
  Claim C2, as amended.  In Phase B every refit gets at most 300 sample indices, in at
  most 3 rounds per candidate: cutting the estimator off above 300 samples changes
  neither the refinement of a candidate nor the result of Phase B, and when every call
  of the shuffle advances a counter by one (each round shuffles once before its
  refit), the refinement of a candidate advances it by at most 3.
\<close>

theorem phase_b_refits_at_most_300_samples:
  "phase_b (estimate_up_to 300 E) thr normal ndt planes_a pts planes_in g =
     phase_b E thr normal ndt planes_a pts planes_in g \<and>
   refine_candidate (estimate_up_to 300 E) thr normal ndt cand pts g =
     refine_candidate E thr normal ndt cand pts g \<and>
   ((\<forall>g xs. cnt (snd (randShuffle E g xs)) = Suc (cnt g)) \<longrightarrow>
      cnt (snd (snd (snd (refine_candidate E thr normal ndt cand pts g)))) \<le> cnt g + 3)"
  using phase_b_estimate_up_to[of E thr normal ndt planes_a pts planes_in g]
    refine_candidate_estimate_up_to[of E thr normal ndt cand pts g]
    refine_candidate_shuffles[of cnt E thr normal ndt cand pts g]
  unfolding phase_b_max_lo_inliers_def by blast

theorem phase_b_refits_at_most_300_samples_witness:
  "refine_candidate (estimate_up_to 300 counting_env) 1 None 0 plane_low row21 0 =
     (plane_low, 21, replicate 21 True, 1) \<and>
   snd (snd (snd (refine_candidate counting_env 1 None 0 plane_low row21 0))) \<le> 0 + 3"
proof -
  have h: "\<forall>g xs. (\<lambda>g. g) (snd (randShuffle counting_env g xs)) = Suc ((\<lambda>g. g) g)"
    by simp
  from phase_b_refits_at_most_300_samples[where E = counting_env and thr = 1 and normal = None
      and ndt = 0 and g = 0 and cand = plane_low and pts = row21 and cnt = "\<lambda>g. g"] h
  show ?thesis unfolding row21_refine by blast
qed

text \<open>
  The claim as stated fails: on 21 points of the plane \<open>z = 0\<close> the first refit of
  Phase B is given all 21 indices.  With the estimator cut off above 20 samples the
  refinement runs differently (three shuffles instead of one).
\<close>

theorem phase_b_refit_takes_21_samples:
  "refine_candidate (estimate_up_to 20 counting_env) 1 None 0 plane_low row21 0 \<noteq>
     refine_candidate counting_env 1 None 0 plane_low row21 0 \<and>
   length (collect_inlier_sample phase_b_max_lo_inliers
             (fst (get_inliers plane_low row21 1 default_best_inls)) [0..<length row21] [])
     = 21"
proof
  show "refine_candidate (estimate_up_to 20 counting_env) 1 None 0 plane_low row21 0 \<noteq>
     refine_candidate counting_env 1 None 0 plane_low row21 0"
    by (simp add: row21_refine row21_refine_cut)
  show "length (collect_inlier_sample phase_b_max_lo_inliers
             (fst (get_inliers plane_low row21 1 default_best_inls)) [0..<length row21] [])
     = 21"
    by (simp add: row21_eval)
qed

section \<open>Few points and the number of planes\<close>










end
